theory Spec2Isabelle
  imports Complex_Main
begin

section \<open>Embedding vectors and the numpy primitives\<close>

text \<open>
  An embedding is a one-dimensional numpy array of floats. Floating-point numbers are
  idealised as real numbers, so "equal within floating-point tolerance" reads as
  equality. The one floating-point effect that is kept is \<open>nan\<close>: numpy does not raise on
  a division by zero, \<open>0.0 / 0.0\<close> is \<open>nan\<close>, and \<open>nan\<close> spreads through every later
  sum and product. A score that may be \<open>nan\<close> is a \<open>real option\<close> (\<open>None\<close> is \<open>nan\<close>), an
  array that may be filled with \<open>nan\<close> is a \<open>vec option\<close>.

  Exceptions are values: a function body that may raise returns \<open>py_error + 'a\<close>, and
  the \<open>try ... except Exception\<close> around it is the case distinction on that sum.
\<close>

type_synonym vec = "real list"

datatype py_error = ValueError | IndexError | KeyError | AxisError | AssertionError | InvalidId
  | IOError

text \<open>\<open>np.array(rows)\<close> of a list of vectors: a matrix when all rows have one length, a
  \<open>ValueError\<close> (inhomogeneous shape) otherwise.\<close>

definition homogeneous :: "vec list \<Rightarrow> bool" where
  "homogeneous rows = (case rows of [] \<Rightarrow> True | r # rs \<Rightarrow> list_all (\<lambda>v. length v = length r) rs)"

definition np_array :: "vec list \<Rightarrow> py_error + vec list" where
  "np_array rows = (if homogeneous rows then Inr rows else Inl ValueError)"

text \<open>\<open>np.dot(a, b)\<close> of two one-dimensional arrays raises a \<open>ValueError\<close> when the shapes
  are not aligned.\<close>

definition dot :: "vec \<Rightarrow> vec \<Rightarrow> real" where
  "dot a b = sum_list (map2 (*) a b)"

definition np_dot :: "vec \<Rightarrow> vec \<Rightarrow> py_error + real" where
  "np_dot a b = (if length a = length b then Inr (dot a b) else Inl ValueError)"

definition linalg_norm :: "vec \<Rightarrow> real" where
  "linalg_norm v = sqrt (sum_list (map (\<lambda>x. x * x) v))"

text \<open>\<open>np.clip(x, lo, hi)\<close> is \<open>minimum(hi, maximum(x, lo))\<close>.\<close>

definition np_clip :: "real \<Rightarrow> real \<Rightarrow> real \<Rightarrow> real" where
  "np_clip x lo hi = min hi (max x lo)"

section \<open>face_utils.py\<close>

text \<open>\<open>FaceUtils._normalize_embedding\<close>: a zero vector is returned as it is.\<close>

definition normalize_embedding :: "vec \<Rightarrow> vec" where
  "normalize_embedding embedding =
     (let norm = linalg_norm embedding
      in if norm = 0 then embedding else map (\<lambda>x. x / norm) embedding)"

text \<open>\<open>FaceUtils.cosine_similarity\<close>: the body of the \<open>try\<close>, then the function with its
  handler, which returns 0.0.\<close>

definition cosine_similarity_body :: "vec \<Rightarrow> vec \<Rightarrow> py_error + real" where
  "cosine_similarity_body emb1 emb2 =
     (case np_dot (normalize_embedding emb1) (normalize_embedding emb2) of
        Inl e \<Rightarrow> Inl e
      | Inr similarity \<Rightarrow> Inr (np_clip similarity 0 1))"

definition cosine_similarity :: "vec \<Rightarrow> vec \<Rightarrow> real" where
  "cosine_similarity emb1 emb2 =
     (case cosine_similarity_body emb1 emb2 of Inl e \<Rightarrow> 0 | Inr s \<Rightarrow> s)"

text \<open>
  \<open>FaceUtils.batch_compare\<close>. \<open>np.array([])\<close> is one-dimensional, so the norm along
  \<open>axis=1\<close> raises an \<open>AxisError\<close> for an empty candidate list. Each row is divided by its
  own norm with no guard: a row of zeros becomes a row of \<open>nan\<close>, and so does its score
  (a row of no elements has nothing to divide, its score is the empty sum).
  The matrix product raises a \<open>ValueError\<close> when the row length differs from the
  query's. The scores are not clipped.
\<close>

definition row_score :: "vec \<Rightarrow> vec \<Rightarrow> real option" where
  "row_score query row =
     (let norm = linalg_norm row
      in if norm = 0 \<and> row \<noteq> [] then None
         else Some (dot (map (\<lambda>x. x / norm) row) query))"

definition batch_compare_body :: "vec \<Rightarrow> vec list \<Rightarrow> py_error + real option list" where
  "batch_compare_body query_embedding database_embeddings =
     (let query = normalize_embedding query_embedding
      in case np_array database_embeddings of
           Inl e \<Rightarrow> Inl e
         | Inr db_matrix \<Rightarrow>
             (case db_matrix of
                [] \<Rightarrow> Inl AxisError
              | r # rs \<Rightarrow>
                  if length r \<noteq> length query then Inl ValueError
                  else Inr (map (row_score query) db_matrix)))"

definition batch_compare :: "vec \<Rightarrow> vec list \<Rightarrow> real option list" where
  "batch_compare query_embedding database_embeddings =
     (case batch_compare_body query_embedding database_embeddings of
        Inl e \<Rightarrow> replicate (length database_embeddings) (Some 0)
      | Inr similarities \<Rightarrow> similarities)"

section \<open>search_index.py\<close>

subsection \<open>The faiss library\<close>

text \<open>
  faiss is an external library; its flat indexes are modelled by their documented
  behaviour. An index has a fixed dimension and stores the vectors added to it, in order.
  \<open>add\<close> and \<open>search\<close> assert that the vectors have the index's dimension, \<open>search\<close> that
  \<open>k > 0\<close>. \<open>search\<close> is exact: it scores every stored vector (inner product for
  \<open>IndexFlatIP\<close>, squared Euclidean distance for \<open>IndexFlatL2\<close>), returns the \<open>k\<close> best,
  best first (largest inner product, smallest distance), and fills the places it cannot
  fill with the label -1. A hit is \<open>Some (distance, label)\<close>, a place with label -1 is
  \<open>None\<close>. Equal scores are returned in the order of the labels.
  \<open>normalize_L2\<close> divides a vector by its norm when the norm is positive.
\<close>

datatype faiss_kind = IndexFlatIP | IndexFlatL2

record faiss_index =
  idx_kind :: faiss_kind
  idx_d :: nat
  idx_xb :: "vec list"

definition faiss_normalize_L2 :: "vec \<Rightarrow> vec" where
  "faiss_normalize_L2 v =
     (let nr = sum_list (map (\<lambda>x. x * x) v)
      in if nr > 0 then map (\<lambda>x. x / sqrt nr) v else v)"

definition faiss_new :: "faiss_kind \<Rightarrow> nat \<Rightarrow> faiss_index" where
  "faiss_new kd d = \<lparr>idx_kind = kd, idx_d = d, idx_xb = []\<rparr>"

definition faiss_add :: "faiss_index \<Rightarrow> vec list \<Rightarrow> py_error + faiss_index" where
  "faiss_add ix m =
     (if list_all (\<lambda>v. length v = idx_d ix) m then Inr (ix\<lparr>idx_xb := idx_xb ix @ m\<rparr>)
      else Inl AssertionError)"

definition faiss_distance :: "faiss_kind \<Rightarrow> vec \<Rightarrow> vec \<Rightarrow> real" where
  "faiss_distance kd q x =
     (case kd of
        IndexFlatIP \<Rightarrow> dot q x
      | IndexFlatL2 \<Rightarrow> sum_list (map2 (\<lambda>a b. (a - b) * (a - b)) q x))"

definition faiss_rank_key :: "faiss_kind \<Rightarrow> real \<times> nat \<Rightarrow> real" where
  "faiss_rank_key kd p = (case kd of IndexFlatIP \<Rightarrow> - fst p | IndexFlatL2 \<Rightarrow> fst p)"

definition faiss_ranked :: "faiss_index \<Rightarrow> vec \<Rightarrow> (real \<times> nat) list" where
  "faiss_ranked ix q =
     sort_key (faiss_rank_key (idx_kind ix))
       (map (\<lambda>(i, x). (faiss_distance (idx_kind ix) q x, i)) (enumerate 0 (idx_xb ix)))"

definition faiss_search :: "faiss_index \<Rightarrow> vec \<Rightarrow> nat \<Rightarrow> py_error + (real \<times> nat) option list" where
  "faiss_search ix q k =
     (if length q \<noteq> idx_d ix \<or> k = 0 then Inl AssertionError
      else let hits = take k (faiss_ranked ix q)
           in Inr (map Some hits @ replicate (k - length hits) None))"

subsection \<open>FaissSearchIndex\<close>

text \<open>
  The object's fields. \<open>embeddings\<close> is the empty Python list at first and the float32
  matrix of the last successful build afterwards. Every method returns its result
  together with the object as it has left it: what a method has assigned before it
  raises stays assigned after its handler has returned \<open>False\<close>.
\<close>

record index_state =
  dimension :: nat
  index :: "faiss_index option"
  names :: "string list"
  embeddings :: "vec list"
  is_trained :: bool

definition FaissSearchIndex_init :: "nat \<Rightarrow> index_state" where
  "FaissSearchIndex_init d =
     \<lparr>dimension = d, index = None, names = [], embeddings = [], is_trained = False\<rparr>"

text \<open>\<open>build_index\<close>: the body of the \<open>try\<close>. Its checks and the conversion to a matrix
  come before the first assignment. A dimension other than the configured one is logged
  and adopted. The \<open>'IP'\<close> index normalises the matrix in place, and the normalised
  matrix is what is stored.\<close>

definition build_index_body ::
  "index_state \<Rightarrow> vec list \<Rightarrow> string list \<Rightarrow> string \<Rightarrow> (py_error + bool) \<times> index_state" where
  "build_index_body self embs nms index_type =
     (if length embs \<noteq> length nms then (Inl ValueError, self)
      else if length embs = 0 then (Inr False, self)
      else case np_array embs of
             Inl e \<Rightarrow> (Inl e, self)
           | Inr embeddings_matrix \<Rightarrow>
               (let d = length (hd embeddings_matrix);
                    self1 = (if d \<noteq> dimension self then self\<lparr>dimension := d\<rparr> else self);
                    m = (if index_type = ''IP'' then map faiss_normalize_L2 embeddings_matrix
                         else embeddings_matrix);
                    self2 = self1\<lparr>index :=
                      Some (faiss_new (if index_type = ''IP'' then IndexFlatIP else IndexFlatL2)
                              (dimension self1))\<rparr>
                in case faiss_add (the (index self2)) m of
                     Inl e \<Rightarrow> (Inl e, self2)
                   | Inr ix \<Rightarrow>
                       (Inr True,
                        self2\<lparr>index := Some ix, names := nms, embeddings := m,
                              is_trained := True\<rparr>)))"

definition build_index ::
  "index_state \<Rightarrow> vec list \<Rightarrow> string list \<Rightarrow> string \<Rightarrow> bool \<times> index_state" where
  "build_index self embs nms index_type =
     (case build_index_body self embs nms index_type of
        (Inl e, self') \<Rightarrow> (False, self')
      | (Inr b, self') \<Rightarrow> (b, self'))"

text \<open>\<open>query_index\<close>. The distance of an \<open>IndexFlatL2\<close> hit becomes the similarity
  \<open>exp(-dist / 10)\<close>; the inner product of an \<open>IndexFlatIP\<close> hit is the similarity.\<close>

definition l2_similarity :: "real \<Rightarrow> real" where
  "l2_similarity distance = exp (- distance / 10)"

definition hit_similarity :: "faiss_kind \<Rightarrow> real \<Rightarrow> real" where
  "hit_similarity kd distance =
     (case kd of IndexFlatIP \<Rightarrow> distance | IndexFlatL2 \<Rightarrow> l2_similarity distance)"

definition hit_result ::
  "index_state \<Rightarrow> faiss_kind \<Rightarrow> (real \<times> nat) option \<Rightarrow> (string \<times> real) option" where
  "hit_result self kd h =
     (case h of
        None \<Rightarrow> None
      | Some (distance, idx) \<Rightarrow>
          if idx < length (names self)
          then Some (names self ! idx, hit_similarity kd distance)
          else None)"

definition query_index_body :: "index_state \<Rightarrow> vec \<Rightarrow> nat \<Rightarrow> py_error + (string \<times> real) list" where
  "query_index_body self embedding k =
     (case index self of
        None \<Rightarrow> Inr []
      | Some ix \<Rightarrow>
          if \<not> is_trained self then Inr []
          else let query_vector = (if idx_kind ix = IndexFlatIP then faiss_normalize_L2 embedding
                                   else embedding);
                   k' = min k (length (names self))
               in case faiss_search ix query_vector k' of
                    Inl e \<Rightarrow> Inl e
                  | Inr hits \<Rightarrow> Inr (List.map_filter (hit_result self (idx_kind ix)) hits))"

definition query_index :: "index_state \<Rightarrow> vec \<Rightarrow> nat \<Rightarrow> (string \<times> real) list" where
  "query_index self embedding k =
     (case query_index_body self embedding k of Inl e \<Rightarrow> [] | Inr results \<Rightarrow> results)"

text \<open>\<open>names.index(name)\<close>, the first position of \<open>name\<close>; the callers check that it
  occurs.\<close>

fun list_index :: "'a \<Rightarrow> 'a list \<Rightarrow> nat" where
  "list_index x [] = 0"
| "list_index x (y # ys) = (if x = y then 0 else Suc (list_index x ys))"

text \<open>\<open>self.embeddings[idx] = new_embedding\<close>: an \<open>IndexError\<close> out of range (always, on
  the empty list of a fresh object); numpy broadcasts a vector of one element over the
  row and raises a \<open>ValueError\<close> for any other length that is not the row's.\<close>

definition set_row :: "vec list \<Rightarrow> nat \<Rightarrow> vec \<Rightarrow> py_error + vec list" where
  "set_row m idx v =
     (if idx \<ge> length m then Inl IndexError
      else if length v = length (m ! idx) then Inr (m[idx := v])
      else if length v = 1 then Inr (m[idx := replicate (length (m ! idx)) (hd v)])
      else Inl ValueError)"

text \<open>\<open>np.delete(self.embeddings, idx, axis=0).tolist()\<close>: an \<open>IndexError\<close> out of
  range.\<close>

definition np_delete :: "vec list \<Rightarrow> nat \<Rightarrow> py_error + vec list" where
  "np_delete m idx = (if idx \<ge> length m then Inl IndexError else Inr (take idx m @ drop (Suc idx) m))"

definition update_embedding :: "index_state \<Rightarrow> string \<Rightarrow> vec \<Rightarrow> bool \<times> index_state" where
  "update_embedding self name new_embedding =
     (if name \<notin> set (names self) then (False, self)
      else let idx = list_index name (names self)
           in case set_row (embeddings self) idx new_embedding of
                Inl e \<Rightarrow> (False, self)
              | Inr m \<Rightarrow> build_index (self\<lparr>embeddings := m\<rparr>) m (names self) ''L2'')"

text \<open>\<open>add_face\<close> appends the name to \<open>self.names\<close> before it builds.\<close>

definition add_face :: "index_state \<Rightarrow> string \<Rightarrow> vec \<Rightarrow> bool \<times> index_state" where
  "add_face self name embedding =
     (let self1 = self\<lparr>names := names self @ [name]\<rparr>;
          embeddings_list = (if length (embeddings self1) > 0 then embeddings self1 else [])
                            @ [embedding]
      in build_index self1 embeddings_list (names self1) ''L2'')"

text \<open>\<open>remove_face\<close> pops the name first; when no name is left it drops the index and
  the trained flag, and leaves \<open>self.embeddings\<close> as it was.\<close>

definition remove_face :: "index_state \<Rightarrow> string \<Rightarrow> bool \<times> index_state" where
  "remove_face self name =
     (if name \<notin> set (names self) then (False, self)
      else let idx = list_index name (names self);
               self1 = self\<lparr>names := take idx (names self) @ drop (Suc idx) (names self)\<rparr>
           in case np_delete (embeddings self1) idx of
                Inl e \<Rightarrow> (False, self1)
              | Inr embeddings_list \<Rightarrow>
                  if length (names self1) > 0
                  then build_index self1 embeddings_list (names self1) ''L2''
                  else (True, self1\<lparr>index := None, is_trained := False\<rparr>))"

subsection \<open>Sequences of mutations and the logical entry set\<close>

datatype index_op = Insert string vec | Update string vec | Remove string

fun apply_op :: "index_state \<Rightarrow> index_op \<Rightarrow> index_state" where
  "apply_op self (Insert name v) = snd (add_face self name v)"
| "apply_op self (Update name v) = snd (update_embedding self name v)"
| "apply_op self (Remove name) = snd (remove_face self name)"

definition apply_ops :: "index_state \<Rightarrow> index_op list \<Rightarrow> index_state" where
  "apply_ops self ops = foldl apply_op self ops"

text \<open>The specification's side of the comparison: the logical entry set, a list of
  named vectors that insert extends, update changes in place and remove shrinks, and
  the index built from scratch over it.\<close>

fun spec_apply_op :: "(string \<times> vec) list \<Rightarrow> index_op \<Rightarrow> (string \<times> vec) list" where
  "spec_apply_op es (Insert name v) = es @ [(name, v)]"
| "spec_apply_op es (Update name v) = map (\<lambda>(n, w). if n = name then (n, v) else (n, w)) es"
| "spec_apply_op es (Remove name) = filter (\<lambda>(n, w). n \<noteq> name) es"

definition spec_entries :: "(string \<times> vec) list \<Rightarrow> index_op list \<Rightarrow> (string \<times> vec) list" where
  "spec_entries es ops = foldl spec_apply_op es ops"

definition spec_fresh_index :: "nat \<Rightarrow> (string \<times> vec) list \<Rightarrow> index_state" where
  "spec_fresh_index d es =
     snd (build_index (FaissSearchIndex_init d) (map snd es) (map fst es) ''L2'')"

subsection \<open>Build attempts in sequence\<close>

text \<open>A series of \<open>build_index\<close> calls on one object: the results of the calls and the
  object after the last one.\<close>

fun run_builds ::
  "index_state \<Rightarrow> (vec list \<times> string list \<times> string) list \<Rightarrow> bool list \<times> index_state" where
  "run_builds self [] = ([], self)"
| "run_builds self ((embs, nms, t) # calls) =
     (let (b, self1) = build_index self embs nms t;
          (bs, self2) = run_builds self1 calls
      in (b # bs, self2))"

section \<open>db_connection.py\<close>

text \<open>
  MongoDB and GridFS are external; the store is modelled by what the code relies on.
  A collection is a finite map from its key to a document. The \<open>authorized_faces\<close>
  collection is keyed by \<open>name\<close> (its unique index), the logs collection and the GridFS
  bucket by their object ids, which are numbers here; GridFS gives every stored file a
  new id. A time stamp (\<open>datetime.utcnow()\<close>) is a number of milliseconds and an argument
  of the operation that reads the clock. When the store cannot be reached
  (\<open>connected\<close> is false) every operation raises. The model is sequential, so the
  \<open>DuplicateKeyError\<close> of a concurrent insert does not occur.
\<close>

record auth_doc =
  doc_embedding :: vec
  doc_image_id :: nat
  doc_created_at :: nat
  doc_updated_at :: nat

record log_doc =
  log_name :: string
  log_confidence :: real
  log_status :: string
  log_embedding :: vec
  log_image_id :: nat
  log_review_flag :: bool
  log_enrolled_as :: "string option"
  log_enrolled_at :: "nat option"
  log_dismissed :: "bool option"
  log_dismissed_at :: "nat option"

record db_state =
  connected :: bool
  auth_coll :: "string \<rightharpoonup> auth_doc"
  logs_coll :: "nat \<rightharpoonup> log_doc"
  fs :: "nat \<rightharpoonup> string"
  fs_next_id :: nat

text \<open>\<open>ObjectId(s)\<close>: the number written by the 24 hexadecimal digits of \<open>s\<close>, an
  \<open>InvalidId\<close> error for any other string. (bson also takes 24 characters in which
  white space stands between pairs of digits and builds a shorter id from them; that id
  is the id of no record, so the methods below return \<open>False\<close> and change nothing for
  such a string, as they do here.)\<close>

definition hex_digit :: "char \<Rightarrow> nat option" where
  "hex_digit c =
     (let n = of_char c :: nat
      in if 48 \<le> n \<and> n \<le> 57 then Some (n - 48)
         else if 97 \<le> n \<and> n \<le> 102 then Some (n - 87)
         else if 65 \<le> n \<and> n \<le> 70 then Some (n - 55)
         else None)"

fun hex_value :: "nat \<Rightarrow> string \<Rightarrow> nat option" where
  "hex_value acc [] = Some acc"
| "hex_value acc (c # cs) =
     (case hex_digit c of None \<Rightarrow> None | Some h \<Rightarrow> hex_value (16 * acc + h) cs)"

definition ObjectId :: "string \<Rightarrow> py_error + nat" where
  "ObjectId s =
     (if length s = 24
      then (case hex_value 0 s of None \<Rightarrow> Inl InvalidId | Some n \<Rightarrow> Inr n)
      else Inl InvalidId)"

text \<open>\<open>DB.add_authorized_face\<close>: the image is stored first; a document of that name is
  updated (embedding, image and \<open>updated_at\<close>), a new one is inserted otherwise.\<close>

definition add_authorized_face ::
  "db_state \<Rightarrow> string \<Rightarrow> vec \<Rightarrow> string \<Rightarrow> nat \<Rightarrow> py_error + db_state" where
  "add_authorized_face db name embedding image_bytes now =
     (if \<not> connected db then Inl IOError
      else let image_id = fs_next_id db;
               db1 = db\<lparr>fs := (fs db)(image_id \<mapsto> image_bytes), fs_next_id := Suc image_id\<rparr>
           in case auth_coll db1 name of
                Some existing \<Rightarrow>
                  Inr (db1\<lparr>auth_coll := (auth_coll db1)(name \<mapsto>
                         existing\<lparr>doc_embedding := embedding, doc_image_id := image_id,
                                  doc_updated_at := now\<rparr>)\<rparr>)
              | None \<Rightarrow>
                  Inr (db1\<lparr>auth_coll := (auth_coll db1)(name \<mapsto>
                         \<lparr>doc_embedding = embedding, doc_image_id = image_id,
                          doc_created_at = now, doc_updated_at = now\<rparr>)\<rparr>))"

text \<open>\<open>DB.update_authorized_embedding\<close>: a name without a document is logged, not an
  error.\<close>

definition update_authorized_embedding ::
  "db_state \<Rightarrow> string \<Rightarrow> vec \<Rightarrow> nat \<Rightarrow> py_error + db_state" where
  "update_authorized_embedding db name new_embedding now =
     (if \<not> connected db then Inl IOError
      else case auth_coll db name of
             None \<Rightarrow> Inr db
           | Some d \<Rightarrow>
               Inr (db\<lparr>auth_coll := (auth_coll db)(name \<mapsto>
                      d\<lparr>doc_embedding := new_embedding, doc_updated_at := now\<rparr>)\<rparr>))"

text \<open>\<open>DB.get_image\<close> catches every exception and returns \<open>None\<close>.\<close>

definition get_image :: "db_state \<Rightarrow> nat \<Rightarrow> string option" where
  "get_image db file_id = (if connected db then fs db file_id else None)"

section \<open>unknown_handler.py\<close>

text \<open>\<open>UnknownFaceHandler.enroll_unknown_as_authorized\<close>. The handler of the \<open>try\<close>
  returns \<open>False\<close>; nothing has been written when an exception is raised before
  \<open>add_authorized_face\<close> has returned. Empty image bytes count as no image
  (\<open>if not image_bytes\<close>).\<close>

definition enroll_unknown_as_authorized ::
  "db_state \<Rightarrow> string \<Rightarrow> string \<Rightarrow> nat \<Rightarrow> bool \<times> db_state" where
  "enroll_unknown_as_authorized db log_id name now =
     (case ObjectId log_id of
        Inl e \<Rightarrow> (False, db)
      | Inr oid \<Rightarrow>
          if \<not> connected db then (False, db)
          else case logs_coll db oid of
                 None \<Rightarrow> (False, db)
               | Some entry \<Rightarrow>
                   (case get_image db (log_image_id entry) of
                      None \<Rightarrow> (False, db)
                    | Some image_bytes \<Rightarrow>
                        if image_bytes = [] then (False, db)
                        else case add_authorized_face db name (log_embedding entry) image_bytes now of
                               Inl e \<Rightarrow> (False, db)
                             | Inr db1 \<Rightarrow>
                                 (True,
                                  db1\<lparr>logs_coll := (logs_coll db1)(oid \<mapsto>
                                        entry\<lparr>log_review_flag := False,
                                            log_enrolled_as := Some name,
                                            log_enrolled_at := Some now\<rparr>)\<rparr>)))"

text \<open>\<open>UnknownFaceHandler.dismiss_unknown\<close>: \<open>update_one\<close> counts a document as modified
  when the update has changed it, and the result is \<open>modified_count > 0\<close>.\<close>

definition dismiss_unknown :: "db_state \<Rightarrow> string \<Rightarrow> nat \<Rightarrow> bool \<times> db_state" where
  "dismiss_unknown db log_id now =
     (case ObjectId log_id of
        Inl e \<Rightarrow> (False, db)
      | Inr oid \<Rightarrow>
          if \<not> connected db then (False, db)
          else case logs_coll db oid of
                 None \<Rightarrow> (False, db)
               | Some entry \<Rightarrow>
                   (let entry' = entry\<lparr>log_review_flag := False, log_dismissed := Some True,
                                   log_dismissed_at := Some now\<rparr>
                    in (entry' \<noteq> entry, db\<lparr>logs_coll := (logs_coll db)(oid \<mapsto> entry')\<rparr>)))"

text \<open>The review state of a detection, read from its record as the specification names it:
  a record with \<open>enrolled_as\<close> is Enrolled, one with \<open>dismissed\<close> is Dismissed, any other
  is Unreviewed.\<close>

datatype review_state = Unreviewed | Dismissed | Enrolled

definition spec_review_state :: "log_doc \<Rightarrow> review_state" where
  "spec_review_state entry =
     (if log_enrolled_as entry \<noteq> None then Enrolled
      else if log_dismissed entry = Some True then Dismissed
      else Unreviewed)"

text \<open>A store for the examples: the identity Alice is enrolled, and one detection that
  matched nobody waits for review, under the object id 1.\<close>

definition example_db :: db_state where
  "example_db =
     \<lparr>connected = True,
      auth_coll = [''Alice'' \<mapsto> \<lparr>doc_embedding = [1, 0], doc_image_id = 0,
                                    doc_created_at = 1, doc_updated_at = 1\<rparr>],
      logs_coll = [1 \<mapsto> \<lparr>log_name = ''Unknown'', log_confidence = 1 / 2,
                            log_status = ''Unauthorized'', log_embedding = [0, 1],
                            log_image_id = 1, log_review_flag = True, log_enrolled_as = None,
                            log_enrolled_at = None, log_dismissed = None,
                            log_dismissed_at = None\<rparr>],
      fs = [0 \<mapsto> ''a'', 1 \<mapsto> ''b''],
      fs_next_id = 2\<rparr>"

definition example_id :: string where
  "example_id = ''000000000000000000000001''"

section \<open>main.py\<close>

text \<open>
  \<open>MATCH_THRESHOLD\<close> and \<open>MULTIFRAME_COUNT\<close> are read from the environment (0.40 and 3
  when it is silent): they are arguments of the functions that use them. The constants
  of the adaptive update are fixed in \<open>config.py\<close>.
\<close>

definition ENABLE_ADAPTIVE_UPDATE :: bool where
  "ENABLE_ADAPTIVE_UPDATE = True"

definition ADAPTIVE_ALPHA :: real where
  "ADAPTIVE_ALPHA = 1 / 10"

definition ADAPTIVE_UPDATE_FREQUENCY :: nat where
  "ADAPTIVE_UPDATE_FREQUENCY = 10"

text \<open>The fields of \<open>FaceRecognitionSystem\<close> that recognition uses. \<open>authorized_cache\<close> is a
  dict, here the list of its items in insertion order.\<close>

record system_state =
  db :: db_state
  authorized_cache :: "(string \<times> vec) list"
  recognition_counts :: "string \<rightharpoonup> nat"
  search_index :: "index_state option"
  use_faiss :: bool
  frame_buffers :: "int \<rightharpoonup> vec list"

text \<open>\<open>d[k] = v\<close> on a dict: the value of an existing key is replaced in its place, a new
  key is added at the end.\<close>

fun dict_set :: "(string \<times> 'v) list \<Rightarrow> string \<Rightarrow> 'v \<Rightarrow> (string \<times> 'v) list" where
  "dict_set [] k v = [(k, v)]"
| "dict_set ((k', v') # kvs) k v =
     (if k' = k then (k, v) # kvs else (k', v') # dict_set kvs k v)"

text \<open>\<open>recognize_face\<close>. One step of the linear search, then the function. No statement
  of its \<open>try\<close> raises: \<open>cosine_similarity\<close> and \<open>query_index\<close> catch their own
  exceptions. An object of the class \<open>FaissSearchIndex\<close> is true as a condition.\<close>

definition scan_step ::
  "real \<Rightarrow> vec \<Rightarrow> string option \<times> real \<Rightarrow> string \<times> vec \<Rightarrow> string option \<times> real" where
  "scan_step MATCH_THRESHOLD embedding acc item =
     (let (best_match, best_similarity) = acc;
          (name, auth_embedding) = item;
          similarity = cosine_similarity embedding auth_embedding
      in if similarity > best_similarity
         then (if similarity \<ge> MATCH_THRESHOLD then Some name else best_match, similarity)
         else (best_match, best_similarity))"

definition recognize_face :: "real \<Rightarrow> system_state \<Rightarrow> vec \<Rightarrow> string option \<times> real" where
  "recognize_face MATCH_THRESHOLD self embedding =
     (if authorized_cache self = [] then (None, 0)
      else if use_faiss self \<and> search_index self \<noteq> None
      then (case query_index (the (search_index self)) embedding 1 of
              [] \<Rightarrow> (None, 0)
            | (name, similarity) # rest \<Rightarrow>
                if similarity \<ge> MATCH_THRESHOLD then (Some name, similarity)
                else (None, similarity))
      else foldl (scan_step MATCH_THRESHOLD embedding) (None, 0) (authorized_cache self))"

text \<open>\<open>deque(maxlen=n).append(x)\<close>: the deque keeps its last \<open>n\<close> elements.\<close>

definition deque_append :: "nat \<Rightarrow> 'a list \<Rightarrow> 'a \<Rightarrow> 'a list" where
  "deque_append maxlen dq x = (let b = dq @ [x] in drop (length b - maxlen) b)"

text \<open>\<open>np.mean(rows, axis=0)\<close>: the sum of the rows divided by their number; \<open>nan\<close> for
  no rows, a \<open>ValueError\<close> for rows of different lengths.\<close>

fun vec_sum :: "vec list \<Rightarrow> vec" where
  "vec_sum [] = []"
| "vec_sum [r] = r"
| "vec_sum (r # rs) = map2 (+) r (vec_sum rs)"

definition np_mean_axis0 :: "vec list \<Rightarrow> py_error + vec option" where
  "np_mean_axis0 rows =
     (if rows = [] then Inr None
      else if \<not> homogeneous rows then Inl ValueError
      else Inr (Some (map (\<lambda>x. x / real (length rows)) (vec_sum rows))))"

text \<open>\<open>v / np.linalg.norm(v)\<close>, with no guard: \<open>nan\<close> in every place when the norm is 0.\<close>

definition divide_by_norm :: "vec \<Rightarrow> vec option" where
  "divide_by_norm v =
     (let norm = linalg_norm v
      in if norm = 0 \<and> v \<noteq> [] then None else Some (map (\<lambda>x. x / norm) v))"

text \<open>
  \<open>multi_frame_recognize\<close>, in two parts. \<open>averaged_embedding\<close> is the first: the buffer of
  the face is created when it is missing, the embedding is appended, and the buffered
  embeddings are averaged and divided by the norm of the average. The buffer has been
  changed when \<open>np.mean\<close> raises, and nothing catches that exception.
  \<open>multi_frame_recognize\<close> passes the averaged embedding to \<open>recognize_face\<close>; the
  recognition of a \<open>nan\<close> vector is not followed (\<open>Inr None\<close>).
\<close>

definition averaged_embedding ::
  "nat \<Rightarrow> (int \<rightharpoonup> vec list) \<Rightarrow> int \<Rightarrow> vec \<Rightarrow> (int \<rightharpoonup> vec list) \<times> (py_error + vec option)" where
  "averaged_embedding MULTIFRAME_COUNT buffers face_id embedding =
     (let buf = deque_append MULTIFRAME_COUNT
                  (case buffers face_id of None \<Rightarrow> [] | Some b \<Rightarrow> b) embedding;
          buffers' = buffers(face_id \<mapsto> buf)
      in (buffers',
          case np_mean_axis0 buf of
            Inl e \<Rightarrow> Inl e
          | Inr None \<Rightarrow> Inr None
          | Inr (Some m) \<Rightarrow> Inr (divide_by_norm m)))"

definition multi_frame_recognize ::
  "real \<Rightarrow> nat \<Rightarrow> system_state \<Rightarrow> int \<Rightarrow> vec
     \<Rightarrow> system_state \<times> (py_error + (string option \<times> real) option)" where
  "multi_frame_recognize MATCH_THRESHOLD MULTIFRAME_COUNT self face_id embedding =
     (let (buffers', averaged) =
            averaged_embedding MULTIFRAME_COUNT (frame_buffers self) face_id embedding;
          self1 = self\<lparr>frame_buffers := buffers'\<rparr>
      in (self1,
          case averaged of
            Inl e \<Rightarrow> Inl e
          | Inr None \<Rightarrow> Inr None
          | Inr (Some a) \<Rightarrow> Inr (Some (recognize_face MATCH_THRESHOLD self1 a))))"

text \<open>The buffers after \<open>n\<close> observations of one embedding for one face.\<close>

fun observe_times ::
  "nat \<Rightarrow> nat \<Rightarrow> (int \<rightharpoonup> vec list) \<Rightarrow> int \<Rightarrow> vec \<Rightarrow> (int \<rightharpoonup> vec list)" where
  "observe_times MULTIFRAME_COUNT 0 buffers face_id v = buffers"
| "observe_times MULTIFRAME_COUNT (Suc n) buffers face_id v =
     observe_times MULTIFRAME_COUNT n
       (fst (averaged_embedding MULTIFRAME_COUNT buffers face_id v)) face_id v"

text \<open>\<open>a + b\<close> on arrays: element by element for equal lengths, an array of one element
  is broadcast, any other pair of lengths raises a \<open>ValueError\<close>.\<close>

definition np_add :: "vec \<Rightarrow> vec \<Rightarrow> py_error + vec" where
  "np_add a b =
     (if length a = length b then Inr (map2 (+) a b)
      else if length a = 1 then Inr (map (\<lambda>y. hd a + y) b)
      else if length b = 1 then Inr (map (\<lambda>x. x + hd b) a)
      else Inl ValueError)"

text \<open>\<open>self.recognition_counts.get(name, 0)\<close>.\<close>

definition recognition_count :: "system_state \<Rightarrow> string \<Rightarrow> nat" where
  "recognition_count self name =
     (case recognition_counts self name of None \<Rightarrow> 0 | Some c \<Rightarrow> c)"

text \<open>
  \<open>update_adaptive_embedding\<close>, with the time of the store's \<open>updated_at\<close>. The handler of
  the \<open>try\<close> logs and returns, so what has been assigned before an exception stays: the
  counter after a \<open>KeyError\<close> or \<open>ValueError\<close>, the counter and the cache after an error of
  the store. The result is \<open>None\<close> when the blend is the zero vector: numpy then stores a
  vector of \<open>nan\<close>, which no state of this model holds.
\<close>

definition update_adaptive_embedding ::
  "system_state \<Rightarrow> string \<Rightarrow> vec \<Rightarrow> nat \<Rightarrow> system_state option" where
  "update_adaptive_embedding self name new_embedding now =
     (if \<not> ENABLE_ADAPTIVE_UPDATE then Some self
      else
        let count = recognition_count self name + 1;
            self1 = self\<lparr>recognition_counts := (recognition_counts self)(name \<mapsto> count)\<rparr>
        in if count mod ADAPTIVE_UPDATE_FREQUENCY \<noteq> 0 then Some self1
           else case map_of (authorized_cache self1) name of
                  None \<Rightarrow> Some self1
                | Some old_embedding \<Rightarrow>
                    (case np_add (map (\<lambda>x. x * (1 - ADAPTIVE_ALPHA)) old_embedding)
                                 (map (\<lambda>x. x * ADAPTIVE_ALPHA) new_embedding) of
                       Inl e \<Rightarrow> Some self1
                     | Inr blended \<Rightarrow>
                         (case divide_by_norm blended of
                            None \<Rightarrow> None
                          | Some updated_embedding \<Rightarrow>
                              (let self2 = self1\<lparr>authorized_cache :=
                                     dict_set (authorized_cache self1) name updated_embedding\<rparr>
                               in case update_authorized_embedding (db self2) name
                                         updated_embedding now of
                                    Inl e \<Rightarrow> Some self2
                                  | Inr db' \<Rightarrow>
                                      (let self3 = self2\<lparr>db := db'\<rparr>
                                       in case search_index self3 of
                                            None \<Rightarrow> Some self3
                                          | Some ix \<Rightarrow>
                                              if use_faiss self3
                                              then Some (self3\<lparr>search_index := Some
                                                     (snd (update_embedding ix name
                                                             updated_embedding))\<rparr>)
                                              else Some self3)))))"

subsection \<open>Notions used to state the results on recognition\<close>

text \<open>The similarity that \<open>query_index\<close> reports for the entry \<open>j\<close> of a faiss index.\<close>

definition faiss_similarity :: "faiss_index \<Rightarrow> vec \<Rightarrow> nat \<Rightarrow> real" where
  "faiss_similarity fx e j =
     hit_similarity (idx_kind fx)
       (faiss_distance (idx_kind fx)
          (if idx_kind fx = IndexFlatIP then faiss_normalize_L2 e else e) (idx_xb fx ! j))"

text \<open>The invariant of the linear search: the accumulator bounds every similarity
  seen so far, and it is either as it was at the start or the similarity of an entry
  seen, with that entry's name when it reaches the threshold.\<close>

definition scan_inv :: "real \<Rightarrow> vec \<Rightarrow> (string \<times> vec) list \<Rightarrow> string option \<times> real \<Rightarrow> bool" where
  "scan_inv M e seen acc =
     ((\<forall>(n, v) \<in> set seen. cosine_similarity e v \<le> snd acc) \<and>
      ((snd acc = 0 \<and> fst acc = None) \<or>
       (\<exists>(n, v) \<in> set seen. cosine_similarity e v = snd acc \<and>
          fst acc = (if cosine_similarity e v \<ge> M then Some n else None))))"

subsection \<open>Notions used to state the results on the adaptive update\<close>

text \<open>The blend \<open>old * (1 - \<alpha>) + new * \<alpha>\<close> of two embeddings of one dimension.\<close>

definition adaptive_blend :: "vec \<Rightarrow> vec \<Rightarrow> vec" where
  "adaptive_blend old_embedding new_embedding =
     map2 (+) (map (\<lambda>x. x * (1 - ADAPTIVE_ALPHA)) old_embedding)
              (map (\<lambda>x. x * ADAPTIVE_ALPHA) new_embedding)"

text \<open>\<open>n\<close> recognitions of one identity with one observed embedding, each followed by
  \<open>update_adaptive_embedding\<close>.\<close>

fun adaptive_run :: "nat \<Rightarrow> system_state \<Rightarrow> string \<Rightarrow> vec \<Rightarrow> nat \<Rightarrow> system_state option" where
  "adaptive_run 0 self name e now = Some self"
| "adaptive_run (Suc n) self name e now =
     (case update_adaptive_embedding self name e now of
        None \<Rightarrow> None
      | Some self' \<Rightarrow> adaptive_run n self' name e now)"

text \<open>A system for the examples: Alice is the one enrolled identity, no faiss index is in
  use.\<close>

definition example_system :: system_state where
  "example_system =
     \<lparr>db = example_db, authorized_cache = [(''Alice'', [1, 0])],
      recognition_counts = Map.empty, search_index = None, use_faiss = False,
      frame_buffers = Map.empty\<rparr>"

section \<open>Vector primitives: results\<close>

lemma length_normalize_embedding: "length (normalize_embedding v) = length v"
  by (simp add: normalize_embedding_def Let_def)

lemma dot_commute: "dot a b = dot b a"
proof -
  have "map2 (*) a b = map2 (*) b (a::vec)"
    by (induction a arbitrary: b) (case_tac b, simp_all)+
  then show ?thesis by (simp add: dot_def)
qed

text \<open>Where a candidate has the query's dimension and its score is a number, the
  pairwise similarity is that score clipped to [0, 1].\<close>

lemma row_score_unclipped_cosine:
  assumes "length c = length q" and "row_score (normalize_embedding q) c = Some x"
  shows "cosine_similarity q c = np_clip x 0 1"
proof (cases "linalg_norm c = 0")
  case True
  with assms(2) have "c = []" by (auto simp: row_score_def Let_def split: if_splits)
  with assms show ?thesis
    by (simp add: row_score_def cosine_similarity_def cosine_similarity_body_def np_dot_def
        dot_def normalize_embedding_def Let_def linalg_norm_def)
next
  case False
  with assms(2) have x: "x = dot (normalize_embedding c) (normalize_embedding q)"
    by (simp add: row_score_def normalize_embedding_def [of c] Let_def)
  from assms(1) show ?thesis
    by (simp add: cosine_similarity_def cosine_similarity_body_def np_dot_def
        length_normalize_embedding x dot_commute [of "normalize_embedding q"])
qed

text \<open>
  C1. The claim: the i-th score of \<open>batch_compare(q, [c1..cn])\<close> equals
  \<open>cosine_similarity(q, ci)\<close>. The code does not do this: \<open>cosine_similarity\<close> clips its
  result to [0, 1] and returns a zero vector as it is, \<open>batch_compare\<close> does neither. For
  the query (1, 0) and the single candidate (-1, 0), \<open>batch_compare\<close> returns [-1.0] and
  \<open>cosine_similarity\<close> returns 0.0; for the candidate (0, 0), \<open>batch_compare\<close> returns
  [nan] and \<open>cosine_similarity\<close> returns 0.0.
\<close>

theorem batch_compare_not_clipped:
  "batch_compare [1, 0] [[-1, 0]] = [Some (-1)] \<and> cosine_similarity [1, 0] [-1, 0] = 0 \<and>
   batch_compare [1, 0] [[0, 0]] = [None] \<and> cosine_similarity [1, 0] [0, 0] = 0"
  by (simp add: batch_compare_def batch_compare_body_def np_array_def homogeneous_def
      row_score_def cosine_similarity_def cosine_similarity_body_def np_dot_def dot_def
      normalize_embedding_def linalg_norm_def np_clip_def Let_def)

text \<open>
  C10. \<open>batch_compare\<close> returns one score for each candidate, whatever the inputs: the
  model is a total function, every exception of the body is caught by the handler, and
  when the body fails the result is 0.0 for every candidate.
\<close>

theorem batch_compare_total:
  "length (batch_compare q cands) = length cands \<and>
   (\<forall>e. batch_compare_body q cands = Inl e \<longrightarrow> batch_compare q cands = replicate (length cands) (Some 0))"
proof -
  have "length rs = length cands" if "batch_compare_body q cands = Inr rs" for rs
    using that
    by (auto simp: batch_compare_body_def np_array_def Let_def
        split: if_splits list.splits)
  then show ?thesis
    by (cases "batch_compare_body q cands") (simp_all add: batch_compare_def)
qed

theorem batch_compare_total_witness:
  "batch_compare_body [1] [[1, 2]] = Inl ValueError \<and> batch_compare [1] [[1, 2]] = [Some 0]"
proof -
  have b: "batch_compare_body [1] [[1, 2]] = Inl ValueError"
    by (simp add: batch_compare_body_def np_array_def homogeneous_def
        length_normalize_embedding Let_def)
  from batch_compare_total [of "[1]" "[[1, 2]]"] b show ?thesis
    by simp
qed

section \<open>The similarity index: results\<close>

lemma length_faiss_normalize_L2: "length (faiss_normalize_L2 v) = length v"
  by (simp add: faiss_normalize_L2_def Let_def)

lemma homogeneous_rows: "homogeneous m \<Longrightarrow> m \<noteq> [] \<Longrightarrow> list_all (\<lambda>v. length v = length (hd m)) m"
  by (cases m) (simp_all add: homogeneous_def)

lemma build_index_body_ok:
  assumes "homogeneous embs" "embs \<noteq> []" "length embs = length nms"
  shows "build_index_body self embs nms t =
     (Inr True,
      \<lparr>dimension = length (hd embs),
       index = Some \<lparr>idx_kind = (if t = ''IP'' then IndexFlatIP else IndexFlatL2),
                     idx_d = length (hd embs),
                     idx_xb = (if t = ''IP'' then map faiss_normalize_L2 embs else embs)\<rparr>,
       names = nms,
       embeddings = (if t = ''IP'' then map faiss_normalize_L2 embs else embs),
       is_trained = True\<rparr>)"
proof -
  have all: "list_all (\<lambda>v. length v = length (hd embs)) embs"
    using assms homogeneous_rows by blast
  then have alln: "list_all (\<lambda>v. length v = length (hd embs)) (map faiss_normalize_L2 embs)"
    by (simp add: list_all_iff length_faiss_normalize_L2)
  show ?thesis
    using assms all alln
    by (cases "length (hd embs) = dimension self")
       (auto simp: build_index_body_def np_array_def Let_def faiss_add_def faiss_new_def)
qed

lemma build_index_fail:
  assumes "embs = [] \<or> \<not> homogeneous embs \<or> length embs \<noteq> length nms"
  shows "build_index self embs nms t = (False, self)"
  using assms
  by (auto simp: build_index_def build_index_body_def np_array_def)

lemma build_index_False_unchanged:
  assumes "\<not> fst (build_index self embs nms t)"
  shows "build_index self embs nms t = (False, self)"
proof (cases "embs = [] \<or> \<not> homogeneous embs \<or> length embs \<noteq> length nms")
  case True
  then show ?thesis by (rule build_index_fail)
next
  case False
  then have "build_index self embs nms t = (True, snd (build_index self embs nms t))"
    by (simp add: build_index_def build_index_body_ok)
  with assms show ?thesis by (metis fst_conv)
qed

text \<open>
  C3. The claim: \<open>build_index\<close> with an empty entry list, or with vectors whose dimensions
  are inconsistent with each other or with the configured dimension, fails and leaves the
  index as it was. The last case does not fail: \<open>build_index\<close> logs the mismatch, adopts
  the dimension of the entries and builds. An index configured for dimension 3 that is
  given one vector of dimension 2 returns \<open>True\<close> and has dimension 2 afterwards.
\<close>

theorem build_index_adopts_dimension:
  "build_index (FaissSearchIndex_init 3) [[1, 0]] [''A''] ''L2'' =
     (True, \<lparr>dimension = 2,
             index = Some \<lparr>idx_kind = IndexFlatL2, idx_d = 2, idx_xb = [[1, 0]]\<rparr>,
             names = [''A''], embeddings = [[1, 0]], is_trained = True\<rparr>)"
  by (simp add: build_index_def build_index_body_def np_array_def homogeneous_def Let_def
      faiss_add_def faiss_new_def FaissSearchIndex_init_def)

text \<open>
  C3, as amended. \<open>build_index\<close> called with an empty entry list, with vectors whose
  dimensions are inconsistent with each other, or with a number of names other than the
  number of vectors, returns \<open>False\<close> and leaves the index exactly as it was. Entries of one
  common dimension are built, whatever the configured dimension: the call returns \<open>True\<close>
  and the index has the dimension and the names of the entries and is trained.
\<close>

theorem build_index_failure_keeps_state:
  "(embs = [] \<or> \<not> homogeneous embs \<or> length embs \<noteq> length nms \<longrightarrow>
      build_index self embs nms t = (False, self)) \<and>
   (embs \<noteq> [] \<and> homogeneous embs \<and> length embs = length nms \<longrightarrow>
      fst (build_index self embs nms t) \<and>
      dimension (snd (build_index self embs nms t)) = length (hd embs) \<and>
      names (snd (build_index self embs nms t)) = nms \<and>
      is_trained (snd (build_index self embs nms t)))"
  using build_index_fail [of embs nms self t]
  by (auto simp: build_index_def build_index_body_ok)

theorem build_index_failure_keeps_state_witness:
  "build_index (FaissSearchIndex_init 3) [[1, 0], [1]] [''A'', ''B''] ''L2''
     = (False, FaissSearchIndex_init 3) \<and>
   fst (build_index (FaissSearchIndex_init 3) [[1, 0], [0, 1]] [''A'', ''B''] ''IP'') \<and>
   dimension (snd (build_index (FaissSearchIndex_init 3) [[1, 0], [0, 1]] [''A'', ''B''] ''IP'')) = 2"
  using build_index_failure_keeps_state
          [of "[[1, 0], [1]]" "[''A'', ''B'']" "FaissSearchIndex_init 3" "''L2''"]
        build_index_failure_keeps_state
          [of "[[1, 0], [0, 1]]" "[''A'', ''B'']" "FaissSearchIndex_init 3" "''IP''"]
  by (simp add: homogeneous_def)

lemma run_builds_all_fail:
  "True \<notin> set (fst (run_builds self calls)) \<Longrightarrow> snd (run_builds self calls) = self"
proof (induction calls arbitrary: self)
  case Nil
  then show ?case by simp
next
  case (Cons c calls)
  obtain embs nms t where c: "c = (embs, nms, t)" by (cases c) auto
  from Cons.prems have nb: "\<not> fst (build_index self embs nms t)"
    by (auto simp: c split: prod.splits)
  then have b: "build_index self embs nms t = (False, self)"
    by (rule build_index_False_unchanged)
  with Cons.prems have "True \<notin> set (fst (run_builds self calls))"
    by (auto simp: c split: prod.splits)
  then have "snd (run_builds self calls) = self" by (rule Cons.IH)
  with b show ?case by (auto simp: c split: prod.splits)
qed

lemma query_index_untrained:
  "\<not> is_trained self \<or> index self = None \<Longrightarrow> query_index self q k = []"
  by (auto simp: query_index_def query_index_body_def split: option.splits)

text \<open>
  C9. Before any build has succeeded, a query returns the empty list: after any series
  of \<open>build_index\<close> calls on a new object, none of which returned \<open>True\<close>, \<open>query_index\<close>
  returns \<open>[]\<close> for every vector and every \<open>k\<close>. The model of \<open>query_index\<close> is total, its
  handler catches every exception of its body.
\<close>

theorem query_before_build_is_empty:
  "True \<notin> set (fst (run_builds (FaissSearchIndex_init d) calls)) \<Longrightarrow>
     query_index (snd (run_builds (FaissSearchIndex_init d) calls)) q k = []"
  by (simp add: run_builds_all_fail query_index_untrained FaissSearchIndex_init_def)

theorem query_before_build_is_empty_witness:
  "fst (run_builds (FaissSearchIndex_init 2) [([], [], ''L2''), ([[1, 0], [1]], [''A'', ''B''], ''IP'')])
     = [False, False] \<and>
   query_index (snd (run_builds (FaissSearchIndex_init 2)
       [([], [], ''L2''), ([[1, 0], [1]], [''A'', ''B''], ''IP'')])) [1, 0] 1 = []"
proof -
  have r: "fst (run_builds (FaissSearchIndex_init 2)
       [([], [], ''L2''), ([[1, 0], [1]], [''A'', ''B''], ''IP'')]) = [False, False]"
    by (simp add: build_index_fail homogeneous_def)
  with query_before_build_is_empty [of 2 "[([], [], ''L2''), ([[1, 0], [1]], [''A'', ''B''], ''IP'')]" "[1, 0]" 1]
  show ?thesis by simp
qed

lemma l2_similarity_zero: "l2_similarity 0 = 1"
  by (simp add: l2_similarity_def)

lemma l2_similarity_strict_antimono: "d1 < d2 \<Longrightarrow> l2_similarity d2 < l2_similarity d1"
  by (simp add: l2_similarity_def)

lemma l2_similarity_antimono: "d1 \<le> d2 \<Longrightarrow> l2_similarity d2 \<le> l2_similarity d1"
  by (simp add: l2_similarity_def)

lemma sorted_faiss_ranked:
  "sorted_wrt (\<lambda>p p'. faiss_rank_key (idx_kind ix) p \<le> faiss_rank_key (idx_kind ix) p') (faiss_ranked ix q)"
proof -
  have "sorted (map (faiss_rank_key (idx_kind ix)) (faiss_ranked ix q))"
    unfolding faiss_ranked_def by (rule sorted_sort_key)
  then show ?thesis by (simp add: sorted_map)
qed

lemma rank_key_similarity:
  "faiss_rank_key kd p \<le> faiss_rank_key kd p' \<Longrightarrow>
     hit_similarity kd (fst p') \<le> hit_similarity kd (fst p)"
  by (cases kd) (simp_all add: faiss_rank_key_def hit_similarity_def l2_similarity_antimono)

lemma map_filter_hits:
  "List.map_filter (hit_result self kd) (map Some hits @ replicate n None) =
     map (\<lambda>(distance, idx). (names self ! idx, hit_similarity kd distance))
       (filter (\<lambda>(distance, idx). idx < length (names self)) hits)"
proof -
  have a: "List.map_filter (hit_result self kd) (replicate n None) = []"
    by (induction n) (simp_all add: List.map_filter_simps hit_result_def)
  have b: "List.map_filter (hit_result self kd) (map Some hits) =
     map (\<lambda>(distance, idx). (names self ! idx, hit_similarity kd distance))
       (filter (\<lambda>(distance, idx). idx < length (names self)) hits)"
    by (induction hits)
       (auto simp: List.map_filter_simps hit_result_def)
  have c: "List.map_filter f (xs @ ys) = List.map_filter f xs @ List.map_filter f ys"
    for f :: "(real \<times> nat) option \<Rightarrow> (string \<times> real) option" and xs ys
    by (simp add: List.map_filter_def)
  show ?thesis
    by (simp add: c a b)
qed

lemma length_faiss_ranked: "length (faiss_ranked ix q) = length (idx_xb ix)"
  by (simp add: faiss_ranked_def)

lemma snd_faiss_ranked: "p \<in> set (faiss_ranked ix q) \<Longrightarrow>
   snd p < length (idx_xb ix) \<and> fst p = faiss_distance (idx_kind ix) q (idx_xb ix ! snd p)"
  by (auto simp: faiss_ranked_def enumerate_eq_zip in_set_zip)

lemma query_index_trained:
  assumes "is_trained self" "index self = Some ix"
  shows "query_index self q k = [] \<or>
     query_index self q k =
       map (\<lambda>(distance, idx). (names self ! idx, hit_similarity (idx_kind ix) distance))
         (filter (\<lambda>(distance, idx). idx < length (names self))
            (take (min k (length (names self)))
               (faiss_ranked ix (if idx_kind ix = IndexFlatIP then faiss_normalize_L2 q else q))))"
  using assms
  by (auto simp: query_index_def query_index_body_def faiss_search_def Let_def map_filter_hits
      split: sum.splits)

text \<open>
  C8. A trained index answers a query with at most \<open>min(k, n)\<close> results, \<open>n\<close> the number
  of entries (the names, and the vectors in the faiss index), in descending order of
  similarity. Each result of an \<open>IndexFlatL2\<close> index is the name of an entry with the
  similarity \<open>l2_similarity\<close> of its distance to the query, and \<open>l2_similarity\<close> maps the
  distance 0 to 1 and is strictly decreasing.
\<close>

theorem query_index_sorted_bounded:
  assumes "is_trained self" and "index self = Some ix"
  shows "length (query_index self q k) \<le> min k (length (names self)) \<and>
         length (query_index self q k) \<le> length (idx_xb ix) \<and>
         sorted_wrt (\<lambda>a b. a \<ge> b) (map snd (query_index self q k)) \<and>
         (idx_kind ix = IndexFlatL2 \<longrightarrow>
            (\<forall>(n, s) \<in> set (query_index self q k).
               \<exists>i < length (idx_xb ix). i < length (names self) \<and> n = names self ! i \<and>
                 s = l2_similarity (faiss_distance IndexFlatL2 q (idx_xb ix ! i)))) \<and>
         l2_similarity 0 = 1 \<and>
         (\<forall>d1 d2. d1 < d2 \<longrightarrow> l2_similarity d2 < l2_similarity d1)"
proof -
  define q' where "q' = (if idx_kind ix = IndexFlatIP then faiss_normalize_L2 q else q)"
  define hits where "hits = take (min k (length (names self))) (faiss_ranked ix q')"
  define kept where "kept = filter (\<lambda>(distance, idx). idx < length (names self)) hits"
  define res where
    "res = map (\<lambda>(distance, idx). (names self ! idx, hit_similarity (idx_kind ix) distance)) kept"
  have cases: "query_index self q k = [] \<or> query_index self q k = res"
    using query_index_trained [OF assms, of q k] by (simp add: res_def kept_def hits_def q'_def)
  have len_hits: "length hits \<le> min k (length (names self))" "length hits \<le> length (idx_xb ix)"
    by (auto simp: hits_def length_faiss_ranked)
  have len_kept: "length kept \<le> length hits"
    by (simp add: kept_def)
  have len: "length res \<le> min k (length (names self))" "length res \<le> length (idx_xb ix)"
    using len_hits len_kept by (simp_all add: res_def)
  have "sorted_wrt (\<lambda>p p'. hit_similarity (idx_kind ix) (fst p') \<le> hit_similarity (idx_kind ix) (fst p))
          (faiss_ranked ix q')"
    using sorted_faiss_ranked [of ix q'] rank_key_similarity [of "idx_kind ix"]
    by (rule sorted_wrt_mono_rel [rotated]) blast
  then have "sorted_wrt (\<lambda>p p'. hit_similarity (idx_kind ix) (fst p') \<le> hit_similarity (idx_kind ix) (fst p))
          kept"
    unfolding kept_def hits_def by (intro sorted_wrt_filter sorted_wrt_take)
  then have srt: "sorted_wrt (\<lambda>a b. a \<ge> b) (map snd res)"
    by (simp add: res_def sorted_wrt_map case_prod_beta)
  have l2: "\<exists>i < length (idx_xb ix). i < length (names self) \<and> n = names self ! i \<and>
                 s = l2_similarity (faiss_distance IndexFlatL2 q (idx_xb ix ! i))"
    if kd: "idx_kind ix = IndexFlatL2" and mem: "(n, s) \<in> set res" for n s
  proof -
    from mem obtain distance idx where
      p: "(distance, idx) \<in> set kept" "n = names self ! idx"
         "s = hit_similarity (idx_kind ix) distance"
      by (auto simp: res_def)
    from p(1) have "(distance, idx) \<in> set (faiss_ranked ix q')" and lt: "idx < length (names self)"
      by (auto simp: kept_def hits_def dest: in_set_takeD)
    from snd_faiss_ranked [OF this(1)]
    have "idx < length (idx_xb ix)" "distance = faiss_distance (idx_kind ix) q' (idx_xb ix ! idx)"
      by simp_all
    with p lt kd show ?thesis
      by (auto simp: hit_similarity_def q'_def)
  qed
  from cases show ?thesis
  proof
    assume "query_index self q k = []"
    then show ?thesis
      by (simp add: l2_similarity_zero l2_similarity_strict_antimono)
  next
    assume "query_index self q k = res"
    then show ?thesis
      using len srt l2 by (auto simp: l2_similarity_zero l2_similarity_strict_antimono)
  qed
qed

theorem query_index_sorted_bounded_witness:
  "is_trained \<lparr>dimension = 2,
       index = Some \<lparr>idx_kind = IndexFlatL2, idx_d = 2, idx_xb = [[1, 0], [0, 1]]\<rparr>,
       names = [''A'', ''B''], embeddings = [[1, 0], [0, 1]], is_trained = True\<rparr> \<and>
   length (query_index \<lparr>dimension = 2,
       index = Some \<lparr>idx_kind = IndexFlatL2, idx_d = 2, idx_xb = [[1, 0], [0, 1]]\<rparr>,
       names = [''A'', ''B''], embeddings = [[1, 0], [0, 1]], is_trained = True\<rparr> [0, 1] 5) \<le> 2 \<and>
   sorted_wrt (\<lambda>a b. a \<ge> b) (map snd (query_index \<lparr>dimension = 2,
       index = Some \<lparr>idx_kind = IndexFlatL2, idx_d = 2, idx_xb = [[1, 0], [0, 1]]\<rparr>,
       names = [''A'', ''B''], embeddings = [[1, 0], [0, 1]], is_trained = True\<rparr> [0, 1] 5))"
  using query_index_sorted_bounded [of "\<lparr>dimension = 2,
       index = Some \<lparr>idx_kind = IndexFlatL2, idx_d = 2, idx_xb = [[1, 0], [0, 1]]\<rparr>,
       names = [''A'', ''B''], embeddings = [[1, 0], [0, 1]], is_trained = True\<rparr>"
       "\<lparr>idx_kind = IndexFlatL2, idx_d = 2, idx_xb = [[1, 0], [0, 1]]\<rparr>" "[0, 1]" 5]
  by simp

text \<open>
  C4. The claim: after any sequence of \<open>add_face\<close>, \<open>update_embedding\<close> and \<open>remove_face\<close>
  a query answers as an index built from scratch over the current logical entry set
  does. The code does not do this. \<open>remove_face\<close> of the last entry drops the index and
  leaves \<open>self.embeddings\<close> as it was, and \<open>add_face\<close> appends the name before it builds.
  On an index built over the one entry A = (1, 0): after removing A, adding B = (0, 1)
  fails on the stale row (two vectors, one name), and the query for (0, 1) finds nothing
  where the fresh index finds B. Adding C = (1, 1) next succeeds with the stale row of A
  under the name B: the query for (1, 0) answers B with similarity 1 where the fresh
  index answers C.
\<close>

theorem maintained_index_diverges:
  "query_index (apply_ops (spec_fresh_index 2 [(''A'', [1, 0])])
       [Remove ''A'', Insert ''B'' [0, 1]]) [0, 1] 1 = [] \<and>
   query_index (spec_fresh_index 2 (spec_entries [(''A'', [1, 0])]
       [Remove ''A'', Insert ''B'' [0, 1]])) [0, 1] 1 = [(''B'', 1)] \<and>
   query_index (apply_ops (spec_fresh_index 2 [(''A'', [1, 0])])
       [Remove ''A'', Insert ''B'' [0, 1], Insert ''C'' [1, 1]]) [1, 0] 1 = [(''B'', 1)] \<and>
   query_index (spec_fresh_index 2 (spec_entries [(''A'', [1, 0])]
       [Remove ''A'', Insert ''B'' [0, 1], Insert ''C'' [1, 1]])) [1, 0] 1
     = [(''C'', exp (- 1 / 10))]"
  by (simp add: query_index_def query_index_body_def faiss_search_def faiss_ranked_def
      faiss_distance_def faiss_rank_key_def enumerate_eq_zip hit_result_def hit_similarity_def
      l2_similarity_def List.map_filter_simps Let_def apply_ops_def spec_entries_def
      spec_fresh_index_def build_index_def build_index_body_def np_array_def homogeneous_def
      faiss_add_def faiss_new_def FaissSearchIndex_init_def add_face_def remove_face_def
      np_delete_def)

section \<open>The review of unmatched detections: results\<close>

lemma ObjectId_example: "ObjectId example_id = Inr 1"
  by (simp add: example_id_def ObjectId_def hex_digit_def)

lemma enroll_ok:
  assumes "connected store" "ObjectId log_id = Inr oid" "logs_coll store oid = Some entry"
    "fs store (log_image_id entry) = Some img" "img \<noteq> []"
  shows "enroll_unknown_as_authorized store log_id name now =
     (True,
      store\<lparr>fs := (fs store)(fs_next_id store \<mapsto> img), fs_next_id := Suc (fs_next_id store),
         auth_coll := (auth_coll store)(name \<mapsto>
           (case auth_coll store name of
              Some existing \<Rightarrow> existing\<lparr>doc_embedding := log_embedding entry,
                                   doc_image_id := fs_next_id store, doc_updated_at := now\<rparr>
            | None \<Rightarrow> \<lparr>doc_embedding = log_embedding entry, doc_image_id = fs_next_id store,
                       doc_created_at = now, doc_updated_at = now\<rparr>)),
         logs_coll := (logs_coll store)(oid \<mapsto>
           entry\<lparr>log_review_flag := False, log_enrolled_as := Some name,
                 log_enrolled_at := Some now\<rparr>)\<rparr>)"
  using assms
  by (simp add: enroll_unknown_as_authorized_def get_image_def add_authorized_face_def Let_def
      split: option.splits)

lemma dismiss_ok:
  assumes "connected store" "ObjectId log_id = Inr oid" "logs_coll store oid = Some entry"
  shows "dismiss_unknown store log_id now =
     (entry\<lparr>log_review_flag := False, log_dismissed := Some True,
            log_dismissed_at := Some now\<rparr> \<noteq> entry,
      store\<lparr>logs_coll := (logs_coll store)(oid \<mapsto>
           entry\<lparr>log_review_flag := False, log_dismissed := Some True,
                 log_dismissed_at := Some now\<rparr>)\<rparr>)"
  using assms by (simp add: dismiss_unknown_def Let_def)

lemma missing_record:
  assumes "ObjectId log_id = Inr oid" "logs_coll store oid = None"
  shows "enroll_unknown_as_authorized store log_id name now = (False, store)"
    "dismiss_unknown store log_id now = (False, store)"
  using assms by (simp_all add: enroll_unknown_as_authorized_def dismiss_unknown_def)

text \<open>
  C2. The claim: enrolling under a name that is already enrolled fails with a name
  conflict and leaves the existing identity as it is, and a detection that has been
  enrolled or dismissed accepts no further enroll or dismiss. The code does neither.
  \<open>enroll_unknown_as_authorized\<close> does not look for the name before it calls
  \<open>add_authorized_face\<close>, which updates the document of an existing name, and neither
  method reads the review state of the record. In the example store, enrolling the
  detection as Alice succeeds and Alice's vector becomes the detection's; after the
  detection has been enrolled as Bob, enrolling it again and dismissing it both succeed;
  after it has been dismissed, dismissing it again and enrolling it both succeed.
\<close>

theorem enroll_overwrites_and_terminal_states_accept:
  "fst (enroll_unknown_as_authorized example_db example_id ''Alice'' 5) \<and>
   map_option doc_embedding
     (auth_coll (snd (enroll_unknown_as_authorized example_db example_id ''Alice'' 5)) ''Alice'')
     = Some [0, 1] \<and>
   map_option spec_review_state
     (logs_coll (snd (enroll_unknown_as_authorized example_db example_id ''Bob'' 5)) 1)
     = Some Enrolled \<and>
   fst (enroll_unknown_as_authorized
          (snd (enroll_unknown_as_authorized example_db example_id ''Bob'' 5))
          example_id ''Carol'' 6) \<and>
   fst (dismiss_unknown (snd (enroll_unknown_as_authorized example_db example_id ''Bob'' 5))
          example_id 6) \<and>
   map_option spec_review_state (logs_coll (snd (dismiss_unknown example_db example_id 5)) 1)
     = Some Dismissed \<and>
   fst (dismiss_unknown (snd (dismiss_unknown example_db example_id 5)) example_id 6) \<and>
   fst (enroll_unknown_as_authorized (snd (dismiss_unknown example_db example_id 5))
          example_id ''Bob'' 6)"
  by (simp add: enroll_unknown_as_authorized_def dismiss_unknown_def ObjectId_example
      example_db_def get_image_def add_authorized_face_def spec_review_state_def Let_def)

text \<open>
  C2, as amended. Enroll and dismiss do not depend on the review state of the
  detection. On a store that can be reached and for a well-formed id: enrolling a
  detection whose record exists and whose image can be read, under a name that is not
  enrolled, succeeds in every review state; the new identity has the detection's vector
  and its image, every other identity is as before, and the record is marked enrolled
  under that name. Dismissing a detection whose record exists marks it dismissed in
  every review state, and succeeds unless the record was already dismissed with the same
  time stamp. Both fail, and change nothing, when the record does not exist. (What
  enrolling under a name that is already enrolled does is left open here.)
\<close>

theorem enroll_dismiss_ignore_review_state:
  assumes "connected store" and "ObjectId log_id = Inr oid"
  shows
    "(\<forall>entry img. logs_coll store oid = Some entry \<and> fs store (log_image_id entry) = Some img \<and>
          img \<noteq> [] \<and> auth_coll store name = None \<longrightarrow>
        fst (enroll_unknown_as_authorized store log_id name now) \<and>
        (\<exists>doc. auth_coll (snd (enroll_unknown_as_authorized store log_id name now)) name = Some doc \<and>
           doc_embedding doc = log_embedding entry \<and>
           fs (snd (enroll_unknown_as_authorized store log_id name now)) (doc_image_id doc)
             = Some img) \<and>
        (\<forall>n. n \<noteq> name \<longrightarrow>
           auth_coll (snd (enroll_unknown_as_authorized store log_id name now)) n = auth_coll store n) \<and>
        logs_coll (snd (enroll_unknown_as_authorized store log_id name now)) oid
          = Some (entry\<lparr>log_review_flag := False, log_enrolled_as := Some name,
                        log_enrolled_at := Some now\<rparr>)) \<and>
     (\<forall>entry. logs_coll store oid = Some entry \<longrightarrow>
        (log_dismissed_at entry \<noteq> Some now \<longrightarrow> fst (dismiss_unknown store log_id now)) \<and>
        logs_coll (snd (dismiss_unknown store log_id now)) oid
          = Some (entry\<lparr>log_review_flag := False, log_dismissed := Some True,
                        log_dismissed_at := Some now\<rparr>)) \<and>
     (logs_coll store oid = None \<longrightarrow>
        enroll_unknown_as_authorized store log_id name now = (False, store) \<and>
        dismiss_unknown store log_id now = (False, store))"
proof (intro conjI allI impI)
  fix entry img
  assume a: "logs_coll store oid = Some entry \<and> fs store (log_image_id entry) = Some img \<and>
          img \<noteq> [] \<and> auth_coll store name = None"
  note e = enroll_ok [OF assms, of entry img name now]
  from a show "fst (enroll_unknown_as_authorized store log_id name now)"
    by (simp add: e)
  from a show "\<exists>doc. auth_coll (snd (enroll_unknown_as_authorized store log_id name now)) name = Some doc \<and>
           doc_embedding doc = log_embedding entry \<and>
           fs (snd (enroll_unknown_as_authorized store log_id name now)) (doc_image_id doc)
             = Some img"
    by (simp add: e)
  from a show "logs_coll (snd (enroll_unknown_as_authorized store log_id name now)) oid
          = Some (entry\<lparr>log_review_flag := False, log_enrolled_as := Some name,
                        log_enrolled_at := Some now\<rparr>)"
    by (simp add: e)
  fix n
  assume "n \<noteq> name"
  with a show "auth_coll (snd (enroll_unknown_as_authorized store log_id name now)) n = auth_coll store n"
    by (simp add: e)
next
  fix entry
  assume a: "logs_coll store oid = Some entry"
  note d = dismiss_ok [OF assms a, of now]
  show "logs_coll (snd (dismiss_unknown store log_id now)) oid
          = Some (entry\<lparr>log_review_flag := False, log_dismissed := Some True,
                        log_dismissed_at := Some now\<rparr>)"
    by (simp add: d)
  assume "log_dismissed_at entry \<noteq> Some now"
  then have "entry\<lparr>log_review_flag := False, log_dismissed := Some True,
                        log_dismissed_at := Some now\<rparr> \<noteq> entry"
    by (auto dest: arg_cong [where f = log_dismissed_at])
  then show "fst (dismiss_unknown store log_id now)"
    by (simp add: d)
next
  assume "logs_coll store oid = None"
  with assms(2) show "enroll_unknown_as_authorized store log_id name now = (False, store)"
    and "dismiss_unknown store log_id now = (False, store)"
    by (rule missing_record)+
qed

theorem enroll_dismiss_ignore_review_state_witness:
  "map_option spec_review_state
     (logs_coll (snd (enroll_unknown_as_authorized example_db example_id ''Bob'' 5)) 1)
     = Some Enrolled \<and>
   auth_coll (snd (enroll_unknown_as_authorized example_db example_id ''Bob'' 5)) ''Carol''
     = None \<and>
   fst (enroll_unknown_as_authorized
          (snd (enroll_unknown_as_authorized example_db example_id ''Bob'' 5))
          example_id ''Carol'' 6) \<and>
   fst (dismiss_unknown (snd (enroll_unknown_as_authorized example_db example_id ''Bob'' 5))
          example_id 6)"
proof -
  define D where "D = snd (enroll_unknown_as_authorized example_db example_id ''Bob'' 5)"
  have c: "connected D"
    and l: "logs_coll D 1 = Some \<lparr>log_name = ''Unknown'', log_confidence = 1 / 2,
                            log_status = ''Unauthorized'', log_embedding = [0, 1],
                            log_image_id = 1, log_review_flag = False,
                            log_enrolled_as = Some ''Bob'',
                            log_enrolled_at = Some 5, log_dismissed = None,
                            log_dismissed_at = None\<rparr>"
    and f: "fs D 1 = Some ''b''"
    and n: "auth_coll D ''Carol'' = None"
    by (simp_all add: D_def enroll_unknown_as_authorized_def ObjectId_example
        example_db_def get_image_def add_authorized_face_def Let_def)
  from enroll_dismiss_ignore_review_state [OF c ObjectId_example, of "''Carol''" 6] l f n
  show ?thesis
    unfolding D_def [symmetric] by (simp add: spec_review_state_def)
qed

section \<open>Recognition: results\<close>

lemma cosine_similarity_range: "0 \<le> cosine_similarity a b \<and> cosine_similarity a b \<le> 1"
  by (simp add: cosine_similarity_def cosine_similarity_body_def np_dot_def np_clip_def
      split: sum.splits)

lemma scan_inv_step:
  assumes "scan_inv M e seen acc" and "0 < M"
  shows "scan_inv M e (seen @ [item]) (scan_step M e acc item)"
proof -
  obtain bm bs where acc: "acc = (bm, bs)" by (cases acc)
  obtain n v where item: "item = (n, v)" by (cases item)
  let ?s = "cosine_similarity e v"
  show ?thesis
  proof (cases "?s > bs")
    case True
    have bm: "?s < M \<Longrightarrow> bm = None"
      using assms True by (auto simp: scan_inv_def acc split: if_splits)
    have "\<forall>(n', v') \<in> set seen. cosine_similarity e v' \<le> ?s"
      using assms(1) True by (fastforce simp: scan_inv_def acc)
    with True bm show ?thesis
      by (auto simp: scan_inv_def scan_step_def acc item)
  next
    case False
    with assms(1) show ?thesis
      by (auto simp: scan_inv_def scan_step_def acc item)
  qed
qed

lemma scan_inv_foldl:
  assumes "0 < M"
  shows "scan_inv M e seen acc \<Longrightarrow> scan_inv M e (seen @ xs) (foldl (scan_step M e) acc xs)"
proof (induction xs arbitrary: seen acc)
  case Nil
  then show ?case by simp
next
  case (Cons x xs)
  from scan_inv_step [OF Cons.prems assms, of x]
  have "scan_inv M e ((seen @ [x]) @ xs) (foldl (scan_step M e) (scan_step M e acc x) xs)"
    by (rule Cons.IH)
  then show ?case by simp
qed

lemma linear_search_best:
  assumes "0 < M" and "cache \<noteq> []"
  shows "\<exists>(name, v) \<in> set cache.
           snd (foldl (scan_step M e) (None, 0) cache) = cosine_similarity e v \<and>
           (\<forall>(n', v') \<in> set cache. cosine_similarity e v' \<le> cosine_similarity e v) \<and>
           fst (foldl (scan_step M e) (None, 0) cache)
             = (if cosine_similarity e v \<ge> M then Some name else None)"
proof -
  let ?r = "foldl (scan_step M e) (None, 0) cache"
  have "scan_inv M e [] (None, 0)" by (simp add: scan_inv_def)
  from scan_inv_foldl [OF assms(1) this, of cache]
  have inv: "scan_inv M e cache ?r" by simp
  then have ub: "\<forall>(n, v) \<in> set cache. cosine_similarity e v \<le> snd ?r"
    by (simp add: scan_inv_def)
  from inv consider "snd ?r = 0" "fst ?r = None"
    | "\<exists>(n, v) \<in> set cache. cosine_similarity e v = snd ?r \<and>
          fst ?r = (if cosine_similarity e v \<ge> M then Some n else None)"
    by (auto simp: scan_inv_def)
  then show ?thesis
  proof cases
    case 1
    obtain n v where nv: "(n, v) \<in> set cache"
      using assms(2) by (cases cache) auto
    with ub 1 have "cosine_similarity e v = 0"
      using cosine_similarity_range [of e v] by fastforce
    with nv ub 1 assms(1) show ?thesis
      by (intro bexI [of _ "(n, v)"]) auto
  next
    case 2
    then obtain n v where nv: "(n, v) \<in> set cache" "cosine_similarity e v = snd ?r"
      "fst ?r = (if cosine_similarity e v \<ge> M then Some n else None)"
      by auto
    with ub show ?thesis
      by (intro bexI [of _ "(n, v)"]) auto
  qed
qed

lemma faiss_ranked_complete:
  "j < length (idx_xb ix) \<Longrightarrow>
     (faiss_distance (idx_kind ix) q (idx_xb ix ! j), j) \<in> set (faiss_ranked ix q)"
  by (force simp: faiss_ranked_def enumerate_eq_zip in_set_zip)

lemma query_index_top1:
  assumes "is_trained ix" and "index ix = Some fx"
    and "length (names ix) = length (idx_xb fx)" and "idx_xb fx \<noteq> []"
    and "length e = idx_d fx"
  shows "\<exists>i < length (idx_xb fx).
           query_index ix e 1 =
             [(names ix ! i,
               hit_similarity (idx_kind fx) (faiss_distance (idx_kind fx)
                 (if idx_kind fx = IndexFlatIP then faiss_normalize_L2 e else e) (idx_xb fx ! i)))] \<and>
           (\<forall>j < length (idx_xb fx).
              hit_similarity (idx_kind fx) (faiss_distance (idx_kind fx)
                 (if idx_kind fx = IndexFlatIP then faiss_normalize_L2 e else e) (idx_xb fx ! j))
              \<le> hit_similarity (idx_kind fx) (faiss_distance (idx_kind fx)
                 (if idx_kind fx = IndexFlatIP then faiss_normalize_L2 e else e) (idx_xb fx ! i)))"
proof -
  define q' where "q' = (if idx_kind fx = IndexFlatIP then faiss_normalize_L2 e else e)"
  have lq: "length q' = idx_d fx"
    using assms(5) by (simp add: q'_def length_faiss_normalize_L2)
  have "length (faiss_ranked fx q') = length (idx_xb fx)"
    by (rule length_faiss_ranked)
  with assms(4) obtain p ps where ranked: "faiss_ranked fx q' = p # ps"
    by (cases "faiss_ranked fx q'") auto
  then have pin: "p \<in> set (faiss_ranked fx q')" by simp
  from snd_faiss_ranked [OF pin]
  have p: "snd p < length (idx_xb fx)"
    "fst p = faiss_distance (idx_kind fx) q' (idx_xb fx ! snd p)"
    by simp_all
  have k: "min (Suc 0) (length (names ix)) = Suc 0"
    using assms(3,4) by (cases "idx_xb fx") auto
  have res: "query_index ix e 1 = [(names ix ! snd p, hit_similarity (idx_kind fx) (fst p))]"
    using assms(1,2,3) lq ranked p(1) k
    by (cases p)
       (simp add: query_index_def query_index_body_def faiss_search_def Let_def q'_def [symmetric]
          List.map_filter_simps hit_result_def)
  have best: "hit_similarity (idx_kind fx) (faiss_distance (idx_kind fx) q' (idx_xb fx ! j))
                \<le> hit_similarity (idx_kind fx) (fst p)"
    if "j < length (idx_xb fx)" for j
  proof -
    let ?pj = "(faiss_distance (idx_kind fx) q' (idx_xb fx ! j), j)"
    have "?pj \<in> set (faiss_ranked fx q')"
      using that by (rule faiss_ranked_complete)
    then have "?pj = p \<or> ?pj \<in> set ps" by (simp add: ranked)
    moreover have "\<forall>p' \<in> set ps. faiss_rank_key (idx_kind fx) p \<le> faiss_rank_key (idx_kind fx) p'"
      using sorted_faiss_ranked [of fx q'] by (simp add: ranked)
    ultimately have "faiss_rank_key (idx_kind fx) p \<le> faiss_rank_key (idx_kind fx) ?pj"
      by auto
    from rank_key_similarity [OF this] show ?thesis by simp
  qed
  from p res best show ?thesis
    unfolding q'_def [symmetric] by (intro exI [of _ "snd p"]) simp
qed

text \<open>
  C6. \<open>recognize_face\<close>, for a positive match threshold (0.40 unless the environment
  sets another). With an empty catalog the result is \<open>(None, 0.0)\<close>. In the linear search
  the result carries the highest similarity among the enrolled identities, with the name
  of an identity that has it when it reaches the threshold and with \<open>None\<close> below the
  threshold. With the faiss index, trained over one vector for each name and asked with
  a vector of its dimension, the result carries the highest similarity that the index
  reports for its entries, with the name of that entry at or above the threshold and
  \<open>None\<close> below it; an index that returns no result gives \<open>(None, 0.0)\<close>.
\<close>

theorem recognize_face_best_match:
  assumes "0 < M"
  shows
   "(authorized_cache self = [] \<longrightarrow> recognize_face M self e = (None, 0)) \<and>
    (authorized_cache self \<noteq> [] \<and> \<not> (use_faiss self \<and> search_index self \<noteq> None) \<longrightarrow>
       (\<exists>(name, v) \<in> set (authorized_cache self).
           (\<forall>(n', v') \<in> set (authorized_cache self).
              cosine_similarity e v' \<le> cosine_similarity e v) \<and>
           recognize_face M self e =
             (if cosine_similarity e v \<ge> M then Some name else None, cosine_similarity e v))) \<and>
    (\<forall>ix fx. authorized_cache self \<noteq> [] \<and> use_faiss self \<and> search_index self = Some ix \<and>
         is_trained ix \<and> index ix = Some fx \<and> length (names ix) = length (idx_xb fx) \<and>
         idx_xb fx \<noteq> [] \<and> length e = idx_d fx \<longrightarrow>
       (\<exists>i < length (idx_xb fx).
           (\<forall>j < length (idx_xb fx). faiss_similarity fx e j \<le> faiss_similarity fx e i) \<and>
           recognize_face M self e =
             (if faiss_similarity fx e i \<ge> M then Some (names ix ! i) else None,
              faiss_similarity fx e i))) \<and>
    (\<forall>ix. authorized_cache self \<noteq> [] \<and> use_faiss self \<and> search_index self = Some ix \<and>
         query_index ix e 1 = [] \<longrightarrow>
       recognize_face M self e = (None, 0))"
proof (intro conjI allI impI)
  assume "authorized_cache self = []"
  then show "recognize_face M self e = (None, 0)"
    by (simp add: recognize_face_def)
next
  assume a: "authorized_cache self \<noteq> [] \<and> \<not> (use_faiss self \<and> search_index self \<noteq> None)"
  then have r: "recognize_face M self e = foldl (scan_step M e) (None, 0) (authorized_cache self)"
    by (auto simp: recognize_face_def)
  from a have ne: "authorized_cache self \<noteq> []" by simp
  from linear_search_best [OF assms ne, of e]
  obtain name v where nv: "(name, v) \<in> set (authorized_cache self)"
    "snd (foldl (scan_step M e) (None, 0) (authorized_cache self)) = cosine_similarity e v"
    "\<forall>(n', v') \<in> set (authorized_cache self). cosine_similarity e v' \<le> cosine_similarity e v"
    "fst (foldl (scan_step M e) (None, 0) (authorized_cache self))
       = (if cosine_similarity e v \<ge> M then Some name else None)"
    by auto
  from nv(2,4) have "recognize_face M self e =
      (if cosine_similarity e v \<ge> M then Some name else None, cosine_similarity e v)"
    unfolding r by (metis prod.collapse)
  with nv(1,3) show "\<exists>(name, v) \<in> set (authorized_cache self).
           (\<forall>(n', v') \<in> set (authorized_cache self).
              cosine_similarity e v' \<le> cosine_similarity e v) \<and>
           recognize_face M self e =
             (if cosine_similarity e v \<ge> M then Some name else None, cosine_similarity e v)"
    by (intro bexI [of _ "(name, v)"]) auto
next
  fix ix fx
  assume a: "authorized_cache self \<noteq> [] \<and> use_faiss self \<and> search_index self = Some ix \<and>
         is_trained ix \<and> index ix = Some fx \<and> length (names ix) = length (idx_xb fx) \<and>
         idx_xb fx \<noteq> [] \<and> length e = idx_d fx"
  then have "\<exists>i < length (idx_xb fx).
           query_index ix e 1 = [(names ix ! i, faiss_similarity fx e i)] \<and>
           (\<forall>j < length (idx_xb fx). faiss_similarity fx e j \<le> faiss_similarity fx e i)"
    unfolding faiss_similarity_def by (intro query_index_top1) simp_all
  then obtain i where i: "i < length (idx_xb fx)"
    "query_index ix e 1 = [(names ix ! i, faiss_similarity fx e i)]"
    "\<forall>j < length (idx_xb fx). faiss_similarity fx e j \<le> faiss_similarity fx e i"
    by blast
  from a i(2) have "recognize_face M self e =
             (if faiss_similarity fx e i \<ge> M then Some (names ix ! i) else None,
              faiss_similarity fx e i)"
    by (simp add: recognize_face_def)
  with i(1,3) show "\<exists>i < length (idx_xb fx).
           (\<forall>j < length (idx_xb fx). faiss_similarity fx e j \<le> faiss_similarity fx e i) \<and>
           recognize_face M self e =
             (if faiss_similarity fx e i \<ge> M then Some (names ix ! i) else None,
              faiss_similarity fx e i)"
    by blast
next
  fix ix
  assume "authorized_cache self \<noteq> [] \<and> use_faiss self \<and> search_index self = Some ix \<and>
         query_index ix e 1 = []"
  then show "recognize_face M self e = (None, 0)"
    by (simp add: recognize_face_def)
qed

theorem recognize_face_best_match_witness:
  "recognize_face (2 / 5)
     \<lparr>db = example_db, authorized_cache = [(''A'', [1, 0]), (''B'', [0, 1])],
      recognition_counts = Map.empty, search_index = None, use_faiss = False,
      frame_buffers = Map.empty\<rparr> [1, 0] = (Some ''A'', 1) \<and>
   recognize_face (2 / 5)
     \<lparr>db = example_db, authorized_cache = [(''A'', [1, 0]), (''B'', [0, 1])],
      recognition_counts = Map.empty, search_index = None, use_faiss = False,
      frame_buffers = Map.empty\<rparr> [-1, 0] = (None, 0)"
proof -
  have c: "cosine_similarity [1, 0] [1, 0] = 1" "cosine_similarity [1, 0] [0, 1] = 0"
    "cosine_similarity [-1, 0] [1, 0] = 0" "cosine_similarity [-1, 0] [0, 1] = 0"
    by (simp_all add: cosine_similarity_def cosine_similarity_body_def np_dot_def dot_def
        normalize_embedding_def linalg_norm_def np_clip_def Let_def)
  have m: "(0::real) < 2 / 5" by simp
  from recognize_face_best_match [OF m, of "\<lparr>db = example_db,
      authorized_cache = [(''A'', [1, 0]), (''B'', [0, 1])],
      recognition_counts = Map.empty, search_index = None, use_faiss = False,
      frame_buffers = Map.empty\<rparr>" "[1, 0]"]
    recognize_face_best_match [OF m, of "\<lparr>db = example_db,
      authorized_cache = [(''A'', [1, 0]), (''B'', [0, 1])],
      recognition_counts = Map.empty, search_index = None, use_faiss = False,
      frame_buffers = Map.empty\<rparr>" "[-1, 0]"]
  show ?thesis
    by (simp add: c)
qed

section \<open>The temporal aggregator: results\<close>

lemma sum_squares_nonneg: "0 \<le> sum_list (map (\<lambda>x. x * x) (v::vec))"
  by (rule sum_list_nonneg) auto

lemma sum_squares_scaled:
  "sum_list (map (\<lambda>x. x * x) (map (\<lambda>x. x / c) (v::vec))) = sum_list (map (\<lambda>x. x * x) v) / (c * c)"
  by (induction v) (simp_all add: add_divide_distrib)

lemma linalg_norm_divided:
  assumes "linalg_norm v \<noteq> 0"
  shows "linalg_norm (map (\<lambda>x. x / linalg_norm v) v) = 1"
proof -
  let ?s = "sum_list (map (\<lambda>x. x * x) v)"
  have nn: "0 \<le> ?s" by (rule sum_squares_nonneg)
  have sq: "linalg_norm v * linalg_norm v = ?s"
    using nn by (simp add: linalg_norm_def)
  from assms have "?s \<noteq> 0" by (auto simp: linalg_norm_def)
  then show ?thesis
    unfolding linalg_norm_def [of "map _ v"] sum_squares_scaled sq by simp
qed

lemma divide_by_norm_unit:
  "linalg_norm m \<noteq> 0 \<Longrightarrow>
     divide_by_norm m = Some (map (\<lambda>x. x / linalg_norm m) m) \<and>
     linalg_norm (map (\<lambda>x. x / linalg_norm m) m) = 1"
  by (simp add: divide_by_norm_def linalg_norm_divided)

lemma vec_sum_nth:
  "rows \<noteq> [] \<Longrightarrow> list_all (\<lambda>r. length r = d) rows \<Longrightarrow>
     length (vec_sum rows) = d \<and> (\<forall>j < d. vec_sum rows ! j = sum_list (map (\<lambda>r. r ! j) rows))"
  by (induction rows rule: vec_sum.induct) auto

lemma length_deque_append: "length (deque_append W dq x) \<le> W"
  by (simp add: deque_append_def Let_def)

lemma deque_append_room: "length dq < W \<Longrightarrow> deque_append W dq x = dq @ [x]"
  by (simp add: deque_append_def Let_def)

lemma deque_append_full: "0 < W \<Longrightarrow> length dq = W \<Longrightarrow> deque_append W dq x = tl dq @ [x]"
  by (cases dq) (simp_all add: deque_append_def Let_def)

lemma deque_append_last: "0 < W \<Longrightarrow> x \<in> set (deque_append W dq x)"
  by (simp add: deque_append_def Let_def)

lemma deque_append_empty: "deque_append W dq x \<noteq> [] \<Longrightarrow> 0 < W"
  by (cases W) (simp_all add: deque_append_def Let_def)

lemma averaged_embedding_eq:
  "averaged_embedding W buffers k v =
     (buffers(k \<mapsto> deque_append W (case buffers k of None \<Rightarrow> [] | Some b \<Rightarrow> b) v),
      case np_mean_axis0 (deque_append W (case buffers k of None \<Rightarrow> [] | Some b \<Rightarrow> b) v) of
        Inl e \<Rightarrow> Inl e
      | Inr None \<Rightarrow> Inr None
      | Inr (Some m) \<Rightarrow> Inr (divide_by_norm m))"
  by (simp add: averaged_embedding_def Let_def)

lemma deque_append_drop:
  "deque_append W (drop (length xs - W) xs) x = drop (length (xs @ [x]) - W) (xs @ [x])"
  by (cases "length xs \<le> W") (simp_all add: deque_append_def Let_def Suc_diff_le)

lemma drop_window:
  "drop (length (drop (length ys - W) ys @ zs) - W) (drop (length ys - W) ys @ zs)
     = drop (length (ys @ zs) - W) (ys @ zs)"
proof (cases "length ys \<le> W")
  case True
  then show ?thesis by simp
next
  case False
  define a where "a = length ys - W"
  have a: "a \<le> length ys" "length ys - a = W"
    using False by (simp_all add: a_def)
  have e: "drop a ys @ zs = drop a (ys @ zs)"
    using a(1) by simp
  have "drop (length (drop a ys @ zs) - W) (drop a ys @ zs)
          = drop (length (drop a ys @ zs) - W + a) (ys @ zs)"
    unfolding e by (simp only: drop_drop)
  moreover have "length (drop a ys @ zs) - W + a = length (ys @ zs) - W"
    using a False by simp
  ultimately show ?thesis
    unfolding a_def by simp
qed

lemma observe_times_buffer:
  "observe_times W (Suc n) buffers k v k =
     Some (drop (length ((case buffers k of None \<Rightarrow> [] | Some b \<Rightarrow> b) @ replicate (Suc n) v) - W)
             ((case buffers k of None \<Rightarrow> [] | Some b \<Rightarrow> b) @ replicate (Suc n) v))"
proof (induction n arbitrary: buffers)
  case 0
  show ?case by (simp add: averaged_embedding_eq deque_append_def Let_def)
next
  case (Suc n)
  define old where "old = (case buffers k of None \<Rightarrow> [] | Some b \<Rightarrow> b)"
  define b1 where "b1 = fst (averaged_embedding W buffers k v)"
  define zs where "zs = replicate (Suc n) v"
  have b1: "(case b1 k of None \<Rightarrow> [] | Some b \<Rightarrow> b)
              = drop (length (old @ [v]) - W) (old @ [v])"
    by (simp add: b1_def old_def averaged_embedding_eq deque_append_def Let_def)
  have r: "old @ replicate (Suc (Suc n)) v = (old @ [v]) @ zs"
    by (simp add: zs_def replicate_append_same)
  have "observe_times W (Suc (Suc n)) buffers k v k = observe_times W (Suc n) b1 k v k"
    by (simp add: b1_def)
  also have "\<dots> = Some (drop (length (drop (length (old @ [v]) - W) (old @ [v]) @ zs) - W)
             (drop (length (old @ [v]) - W) (old @ [v]) @ zs))"
    unfolding Suc.IH b1 zs_def ..
  also have "\<dots> = Some (drop (length ((old @ [v]) @ zs) - W) ((old @ [v]) @ zs))"
    by (simp only: drop_window)
  finally have "observe_times W (Suc (Suc n)) buffers k v k
      = Some (drop (length ((old @ [v]) @ zs) - W) ((old @ [v]) @ zs))" .
  then have "observe_times W (Suc (Suc n)) buffers k v k
      = Some (drop (length (old @ replicate (Suc (Suc n)) v) - W)
                (old @ replicate (Suc (Suc n)) v))"
    by (simp only: r)
  then show ?case
    unfolding old_def .
qed

lemma observe_times_full:
  assumes "0 < W"
  shows "fst (averaged_embedding W (observe_times W (W - 1) buffers k v) k v) k
           = Some (replicate W v)"
proof (cases "W - 1")
  case 0
  with assms have "W = 1" by simp
  then show ?thesis
    by (simp add: averaged_embedding_eq deque_append_def Let_def)
next
  case (Suc n)
  with assms have W: "W = Suc (Suc n)" by simp
  define old where "old = (case buffers k of None \<Rightarrow> [] | Some b \<Rightarrow> b)"
  define xs where "xs = old @ replicate (Suc n) v"
  have prev: "observe_times W (W - 1) buffers k v k = Some (drop (length xs - W) xs)"
    unfolding Suc xs_def old_def by (rule observe_times_buffer)
  have "deque_append W (drop (length xs - W) xs) v = drop (length (xs @ [v]) - W) (xs @ [v])"
    by (rule deque_append_drop)
  also have "xs @ [v] = old @ replicate W v"
    by (simp add: xs_def W replicate_append_same)
  also have "drop (length (old @ replicate W v) - W) (old @ replicate W v) = replicate W v"
    by simp
  finally have "deque_append W (drop (length xs - W) xs) v = replicate W v" .
  with prev show ?thesis
    by (simp add: averaged_embedding_eq)
qed

lemma map2_add_same: "map2 (+) v (map f v) = map (\<lambda>x. x + f x) (v::vec)"
  by (induction v) simp_all

lemma vec_sum_replicate: "vec_sum (replicate (Suc n) v) = map (\<lambda>x. real (Suc n) * x) v"
proof (induction n)
  case 0
  show ?case by simp
next
  case (Suc n)
  have "vec_sum (replicate (Suc (Suc n)) v) = map2 (+) v (vec_sum (replicate (Suc n) v))"
    by simp
  also have "\<dots> = map (\<lambda>x. x + real (Suc n) * x) v"
    unfolding Suc.IH by (rule map2_add_same)
  also have "\<dots> = map (\<lambda>x. real (Suc (Suc n)) * x) v"
    by (simp add: algebra_simps)
  finally show ?case .
qed

lemma homogeneous_replicate: "homogeneous (replicate n v)"
  by (cases n) (simp_all add: homogeneous_def list_all_iff)

lemma np_mean_replicate: "0 < W \<Longrightarrow> np_mean_axis0 (replicate W v) = Inr (Some v)"
proof -
  assume "0 < W"
  then obtain n where W: "W = Suc n" by (cases W) auto
  have "map (\<lambda>x. x / real (Suc n)) (map (\<lambda>x. real (Suc n) * x) v) = v"
    by (simp add: map_idI)
  then show ?thesis
    unfolding W np_mean_axis0_def vec_sum_replicate
    by (simp add: homogeneous_replicate del: replicate.simps)
qed

lemma np_mean_homogeneous:
  assumes "buf \<noteq> []" and "homogeneous buf" and "v \<in> set buf"
  shows "\<exists>m. np_mean_axis0 buf = Inr (Some m) \<and> length m = length v \<and>
           (\<forall>j < length v. m ! j = sum_list (map (\<lambda>r. r ! j) buf) / real (length buf))"
proof -
  have all: "list_all (\<lambda>r. length r = length (hd buf)) buf"
    using assms(1,2) homogeneous_rows by blast
  with assms(3) have lv: "length (hd buf) = length v"
    by (auto simp: list_all_iff)
  from vec_sum_nth [OF assms(1) all]
  have "length (vec_sum buf) = length v"
    "\<forall>j < length v. vec_sum buf ! j = sum_list (map (\<lambda>r. r ! j) buf)"
    by (simp_all add: lv)
  with assms(1,2) show ?thesis
    by (simp add: np_mean_axis0_def)
qed

text \<open>
  C7. The buffer of a tracking key after an observation holds at most \<open>MULTIFRAME_COUNT\<close>
  embeddings: the new one is appended while there is room, and takes the place of the
  oldest when the buffer is full. The vector that the observation computes and hands to
  \<open>recognize_face\<close> is the arithmetic mean of the buffered vectors (of one dimension)
  divided by its norm, a vector of norm 1 whenever the mean is not zero. Observing one
  vector of norm 1 \<open>MULTIFRAME_COUNT\<close> times gives that vector, whatever the buffer held
  before.
\<close>

theorem averaged_embedding_window:
  "(\<exists>buf. fst (averaged_embedding W buffers k v) = buffers(k \<mapsto> buf) \<and>
      length buf \<le> W \<and>
      (length (case buffers k of None \<Rightarrow> [] | Some b \<Rightarrow> b) < W \<longrightarrow>
         buf = (case buffers k of None \<Rightarrow> [] | Some b \<Rightarrow> b) @ [v]) \<and>
      (0 < W \<and> length (case buffers k of None \<Rightarrow> [] | Some b \<Rightarrow> b) = W \<longrightarrow>
         buf = tl (case buffers k of None \<Rightarrow> [] | Some b \<Rightarrow> b) @ [v]) \<and>
      (buf \<noteq> [] \<and> homogeneous buf \<longrightarrow>
         (\<exists>m. length m = length v \<and>
              (\<forall>j < length v. m ! j = sum_list (map (\<lambda>r. r ! j) buf) / real (length buf)) \<and>
              snd (averaged_embedding W buffers k v) = Inr (divide_by_norm m) \<and>
              (linalg_norm m \<noteq> 0 \<longrightarrow>
                 divide_by_norm m = Some (map (\<lambda>x. x / linalg_norm m) m) \<and>
                 linalg_norm (map (\<lambda>x. x / linalg_norm m) m) = 1)))) \<and>
   (0 < W \<and> linalg_norm v = 1 \<longrightarrow>
      snd (averaged_embedding W (observe_times W (W - 1) buffers k v) k v) = Inr (Some v))"
proof (intro conjI)
  define old where "old = (case buffers k of None \<Rightarrow> [] | Some b \<Rightarrow> b)"
  define buf where "buf = deque_append W old v"
  have res: "averaged_embedding W buffers k v =
     (buffers(k \<mapsto> buf),
      case np_mean_axis0 buf of Inl e \<Rightarrow> Inl e | Inr None \<Rightarrow> Inr None
        | Inr (Some m) \<Rightarrow> Inr (divide_by_norm m))"
    unfolding buf_def old_def by (rule averaged_embedding_eq)
  have mean: "\<exists>m. length m = length v \<and>
              (\<forall>j < length v. m ! j = sum_list (map (\<lambda>r. r ! j) buf) / real (length buf)) \<and>
              snd (averaged_embedding W buffers k v) = Inr (divide_by_norm m) \<and>
              (linalg_norm m \<noteq> 0 \<longrightarrow>
                 divide_by_norm m = Some (map (\<lambda>x. x / linalg_norm m) m) \<and>
                 linalg_norm (map (\<lambda>x. x / linalg_norm m) m) = 1)"
    if ne: "buf \<noteq> []" and h: "homogeneous buf"
  proof -
    from ne have "0 < W" unfolding buf_def by (rule deque_append_empty)
    then have "v \<in> set buf" unfolding buf_def by (rule deque_append_last)
    from np_mean_homogeneous [OF ne h this] obtain m where m:
      "np_mean_axis0 buf = Inr (Some m)" "length m = length v"
      "\<forall>j < length v. m ! j = sum_list (map (\<lambda>r. r ! j) buf) / real (length buf)"
      by blast
    from m(1) have "snd (averaged_embedding W buffers k v) = Inr (divide_by_norm m)"
      by (simp add: res)
    with m(2,3) divide_by_norm_unit [of m] show ?thesis
      by blast
  qed
  show "\<exists>buf. fst (averaged_embedding W buffers k v) = buffers(k \<mapsto> buf) \<and>
      length buf \<le> W \<and>
      (length (case buffers k of None \<Rightarrow> [] | Some b \<Rightarrow> b) < W \<longrightarrow>
         buf = (case buffers k of None \<Rightarrow> [] | Some b \<Rightarrow> b) @ [v]) \<and>
      (0 < W \<and> length (case buffers k of None \<Rightarrow> [] | Some b \<Rightarrow> b) = W \<longrightarrow>
         buf = tl (case buffers k of None \<Rightarrow> [] | Some b \<Rightarrow> b) @ [v]) \<and>
      (buf \<noteq> [] \<and> homogeneous buf \<longrightarrow>
         (\<exists>m. length m = length v \<and>
              (\<forall>j < length v. m ! j = sum_list (map (\<lambda>r. r ! j) buf) / real (length buf)) \<and>
              snd (averaged_embedding W buffers k v) = Inr (divide_by_norm m) \<and>
              (linalg_norm m \<noteq> 0 \<longrightarrow>
                 divide_by_norm m = Some (map (\<lambda>x. x / linalg_norm m) m) \<and>
                 linalg_norm (map (\<lambda>x. x / linalg_norm m) m) = 1)))"
    unfolding old_def [symmetric]
  proof (intro exI [of _ buf] conjI impI)
    show "fst (averaged_embedding W buffers k v) = buffers(k \<mapsto> buf)"
      by (simp add: res)
    show "length buf \<le> W"
      unfolding buf_def by (rule length_deque_append)
    show "buf = old @ [v]" if "length old < W"
      unfolding buf_def using that by (rule deque_append_room)
    show "buf = tl old @ [v]" if "0 < W \<and> length old = W"
      unfolding buf_def using that by (simp add: deque_append_full)
    show "\<exists>m. length m = length v \<and>
              (\<forall>j < length v. m ! j = sum_list (map (\<lambda>r. r ! j) buf) / real (length buf)) \<and>
              snd (averaged_embedding W buffers k v) = Inr (divide_by_norm m) \<and>
              (linalg_norm m \<noteq> 0 \<longrightarrow>
                 divide_by_norm m = Some (map (\<lambda>x. x / linalg_norm m) m) \<and>
                 linalg_norm (map (\<lambda>x. x / linalg_norm m) m) = 1)"
      if "buf \<noteq> [] \<and> homogeneous buf"
      using that mean by blast
  qed
next
  show "0 < W \<and> linalg_norm v = 1 \<longrightarrow>
      snd (averaged_embedding W (observe_times W (W - 1) buffers k v) k v) = Inr (Some v)"
  proof
    assume a: "0 < W \<and> linalg_norm v = 1"
    define B where "B = observe_times W (W - 1) buffers k v"
    from a have "fst (averaged_embedding W B k v) k = Some (replicate W v)"
      unfolding B_def by (intro observe_times_full) simp
    then have buf: "deque_append W (case B k of None \<Rightarrow> [] | Some b \<Rightarrow> b) v = replicate W v"
      by (simp add: averaged_embedding_eq)
    from a have "divide_by_norm v = Some v"
      by (simp add: divide_by_norm_def map_idI)
    with a show "snd (averaged_embedding W B k v) = Inr (Some v)"
      by (simp add: averaged_embedding_eq buf np_mean_replicate)
  qed
qed

theorem averaged_embedding_window_witness:
  "snd (averaged_embedding 3 (observe_times 3 2 Map.empty 7 [1, 0]) 7 [1, 0]) = Inr (Some [1, 0]) \<and>
   fst (averaged_embedding 3 [7 \<mapsto> [[1, 0], [0, 1], [1, 1]]] 7 [2, 0])
     = [7 \<mapsto> [[0, 1], [1, 1], [2, 0]]]"
proof -
  have n: "linalg_norm [1, 0] = 1"
    by (simp add: linalg_norm_def)
  from averaged_embedding_window [of 3 Map.empty 7 "[1, 0]"] n
  have a: "snd (averaged_embedding 3 (observe_times 3 2 Map.empty 7 [1, 0]) 7 [1, 0])
             = Inr (Some [1, 0])"
    by simp
  from averaged_embedding_window [of 3 "[7 \<mapsto> [[1, 0], [0, 1], [1, 1]]]" 7 "[2, 0]"]
  have b: "fst (averaged_embedding 3 [7 \<mapsto> [[1, 0], [0, 1], [1, 1]]] 7 [2, 0])
             = [7 \<mapsto> [[0, 1], [1, 1], [2, 0]]]"
    by auto
  from a b show ?thesis ..
qed

section \<open>The adaptive update: results\<close>

lemma sum_squares_combination:
  "length a = length b \<Longrightarrow>
     sum_list (map (\<lambda>z. z * z) (map2 (+) (map (\<lambda>x. x * p) a) (map (\<lambda>x. x * q) b)))
       = p * p * sum_list (map (\<lambda>x. x * x) a) + 2 * p * q * dot a b
         + q * q * sum_list (map (\<lambda>x. x * x) (b::vec))"
  by (induction a b rule: list_induct2) (simp_all add: dot_def algebra_simps)

lemma dot_lower_bound:
  assumes "length a = length b"
  shows "- (sum_list (map (\<lambda>x. x * x) a) + sum_list (map (\<lambda>x. x * x) b)) \<le> 2 * dot a b"
proof -
  have "0 \<le> sum_list (map (\<lambda>z. z * z) (map2 (+) (map (\<lambda>x. x * 1) a) (map (\<lambda>x. x * 1) b)))"
    by (rule sum_squares_nonneg)
  then show ?thesis
    unfolding sum_squares_combination [OF assms] by simp
qed

lemma unit_sum_squares: "linalg_norm v = 1 \<Longrightarrow> sum_list (map (\<lambda>x. x * x) v) = 1"
  by (simp add: linalg_norm_def)

lemma adaptive_blend_nonzero:
  assumes "linalg_norm a = 1" and "linalg_norm b = 1" and "length a = length b"
  shows "linalg_norm (adaptive_blend a b) \<noteq> 0"
proof -
  have "sum_list (map (\<lambda>z. z * z) (adaptive_blend a b))
          = (1 - ADAPTIVE_ALPHA) * (1 - ADAPTIVE_ALPHA) * 1
            + 2 * (1 - ADAPTIVE_ALPHA) * ADAPTIVE_ALPHA * dot a b
            + ADAPTIVE_ALPHA * ADAPTIVE_ALPHA * 1"
    unfolding adaptive_blend_def sum_squares_combination [OF assms(3)]
    by (simp add: unit_sum_squares assms)
  moreover have "- 2 \<le> 2 * dot a b"
    using dot_lower_bound [OF assms(3)] by (simp add: unit_sum_squares assms)
  ultimately have "0 < sum_list (map (\<lambda>z. z * z) (adaptive_blend a b))"
    by (simp add: ADAPTIVE_ALPHA_def)
  then show ?thesis
    by (simp add: linalg_norm_def)
qed

lemma map_of_dict_set: "map_of (dict_set kvs k v) k' = (if k' = k then Some v else map_of kvs k')"
  by (induction kvs k v rule: dict_set.induct) auto

lemma list_index_less: "x \<in> set xs \<Longrightarrow> list_index x xs < length xs"
  by (induction xs) auto

lemma list_all_homogeneous: "list_all (\<lambda>r. length r = d) m \<Longrightarrow> homogeneous m"
  by (cases m) (auto simp: homogeneous_def list_all_iff)

lemma update_embedding_ok:
  assumes "name \<in> set (names ix)" and "length (embeddings ix) = length (names ix)"
    and "list_all (\<lambda>r. length r = length u) (embeddings ix)"
  shows "update_embedding ix name u =
     (True,
      \<lparr>dimension = length u,
       index = Some \<lparr>idx_kind = IndexFlatL2, idx_d = length u,
                     idx_xb = (embeddings ix)[list_index name (names ix) := u]\<rparr>,
       names = names ix,
       embeddings = (embeddings ix)[list_index name (names ix) := u],
       is_trained = True\<rparr>)"
proof -
  define i where "i = list_index name (names ix)"
  define m where "m = (embeddings ix)[i := u]"
  have i: "i < length (embeddings ix)"
    using assms(1,2) by (simp add: i_def list_index_less)
  then have row: "length (embeddings ix ! i) = length u"
    using assms(3) by (simp add: list_all_length)
  have sr: "set_row (embeddings ix) i u = Inr m"
    using i row by (simp add: set_row_def m_def)
  have all: "list_all (\<lambda>r. length r = length u) m"
    using assms(3) unfolding m_def list_all_iff by (auto dest: set_update_subset_insert [THEN subsetD])
  have ne: "m \<noteq> []" using i by (auto simp: m_def)
  then have hd: "length (hd m) = length u"
    using all by (cases m) simp_all
  have len: "length m = length (names ix)"
    using assms(2) by (simp add: m_def)
  have "build_index (ix\<lparr>embeddings := m\<rparr>) m (names ix) ''L2'' =
     (True, \<lparr>dimension = length u,
       index = Some \<lparr>idx_kind = IndexFlatL2, idx_d = length u, idx_xb = m\<rparr>,
       names = names ix, embeddings = m, is_trained = True\<rparr>)"
    using build_index_body_ok [OF list_all_homogeneous [OF all] ne len, of "ix\<lparr>embeddings := m\<rparr>" "''L2''"]
    by (simp add: build_index_def hd)
  with assms(1) sr show ?thesis
    by (simp add: update_embedding_def i_def [symmetric] m_def [symmetric] Let_def)
qed

lemma update_adaptive_skips:
  assumes "(recognition_count self name + 1)
             mod ADAPTIVE_UPDATE_FREQUENCY \<noteq> 0"
  shows "update_adaptive_embedding self name e now =
     Some (self\<lparr>recognition_counts := (recognition_counts self)(name \<mapsto>
             recognition_count self name + 1)\<rparr>)"
  using assms by (simp add: update_adaptive_embedding_def ENABLE_ADAPTIVE_UPDATE_def Let_def)

lemma update_adaptive_fires:
  assumes "(recognition_count self name + 1)
             mod ADAPTIVE_UPDATE_FREQUENCY = 0"
    and "map_of (authorized_cache self) name = Some old"
    and "length old = length e"
    and "linalg_norm (adaptive_blend old e) \<noteq> 0"
    and "connected (db self)"
    and "auth_coll (db self) name = Some doc"
  defines "u \<equiv> map (\<lambda>x. x / linalg_norm (adaptive_blend old e)) (adaptive_blend old e)"
  shows "\<exists>self'. update_adaptive_embedding self name e now = Some self' \<and>
           recognition_counts self' name
             = Some (recognition_count self name + 1) \<and>
           authorized_cache self' = dict_set (authorized_cache self) name u \<and>
           db self' = (db self)\<lparr>auth_coll := (auth_coll (db self))(name \<mapsto>
                         doc\<lparr>doc_embedding := u, doc_updated_at := now\<rparr>)\<rparr> \<and>
           search_index self' =
             (case search_index self of
                None \<Rightarrow> None
              | Some ix \<Rightarrow> if use_faiss self then Some (snd (update_embedding ix name u))
                           else Some ix)"
proof -
  have a: "np_add (map (\<lambda>x. x * (1 - ADAPTIVE_ALPHA)) old) (map (\<lambda>x. x * ADAPTIVE_ALPHA) e)
             = Inr (adaptive_blend old e)"
    using assms(3) by (simp add: np_add_def adaptive_blend_def)
  have d: "divide_by_norm (adaptive_blend old e) = Some u"
    using assms(4) by (simp add: divide_by_norm_def u_def)
  show ?thesis
    using assms(1,2,5,6)
    by (cases "search_index self")
       (simp_all add: update_adaptive_embedding_def ENABLE_ADAPTIVE_UPDATE_def Let_def a d
          update_authorized_embedding_def)
qed

lemma adaptive_run_unchanged:
  "\<forall>i < n. (recognition_count self name + i + 1) mod ADAPTIVE_UPDATE_FREQUENCY \<noteq> 0 \<Longrightarrow>
     \<exists>self'. adaptive_run n self name e now = Some self' \<and>
       authorized_cache self' = authorized_cache self \<and> db self' = db self \<and>
       search_index self' = search_index self \<and>
       recognition_count self' name = recognition_count self name + n"
proof (induction n arbitrary: self)
  case 0
  then show ?case by simp
next
  case (Suc n)
  define s1 where "s1 = self\<lparr>recognition_counts := (recognition_counts self)(name \<mapsto>
             recognition_count self name + 1)\<rparr>"
  from Suc.prems have "(recognition_count self name + 1) mod ADAPTIVE_UPDATE_FREQUENCY \<noteq> 0"
    by (metis add.right_neutral zero_less_Suc)
  then have u: "update_adaptive_embedding self name e now = Some s1"
    unfolding s1_def by (rule update_adaptive_skips)
  have c1: "recognition_count s1 name = recognition_count self name + 1"
    by (simp add: s1_def recognition_count_def)
  have "\<forall>i < n. (recognition_count s1 name + i + 1) mod ADAPTIVE_UPDATE_FREQUENCY \<noteq> 0"
  proof (intro allI impI)
    fix i assume "i < n"
    then have "Suc i < Suc n" by simp
    with Suc.prems have "(recognition_count self name + Suc i + 1) mod ADAPTIVE_UPDATE_FREQUENCY \<noteq> 0"
      by blast
    then show "(recognition_count s1 name + i + 1) mod ADAPTIVE_UPDATE_FREQUENCY \<noteq> 0"
      by (simp add: c1)
  qed
  from Suc.IH [OF this] obtain self' where
    "adaptive_run n s1 name e now = Some self'"
    "authorized_cache self' = authorized_cache s1" "db self' = db s1"
    "search_index self' = search_index s1"
    "recognition_count self' name = recognition_count s1 name + n"
    by blast
  then show ?case
    by (simp add: u c1) (simp add: s1_def)
qed

text \<open>
  C5. \<open>update_adaptive_embedding\<close> counts the recognitions of an identity and changes
  nothing else unless the count is a multiple of \<open>ADAPTIVE_UPDATE_FREQUENCY\<close>: the cache,
  the store and the index are as before after each of the recognitions that follow an
  update, up to the last one before the next multiple. On a multiple, for an enrolled
  identity whose stored vector and the observed vector have norm 1 and one dimension,
  and a store that can be reached and holds the identity: the blend
  \<open>old * (1 - \<alpha>) + observed * \<alpha>\<close> is not zero, the new vector is the blend divided by
  its norm and has norm 1, and it is the vector of the identity in the cache and in the
  store afterwards, and the row of the identity in the faiss index when one is in use
  and holds one row of that dimension for each name.
\<close>

theorem adaptive_update_every_Fth:
  "(\<forall>n. recognition_count self name mod ADAPTIVE_UPDATE_FREQUENCY = 0 \<and>
        n < ADAPTIVE_UPDATE_FREQUENCY \<longrightarrow>
      (\<exists>self'. adaptive_run n self name e now = Some self' \<and>
         authorized_cache self' = authorized_cache self \<and> db self' = db self \<and>
         search_index self' = search_index self \<and>
         recognition_count self' name = recognition_count self name + n)) \<and>
   ((recognition_count self name + 1) mod ADAPTIVE_UPDATE_FREQUENCY \<noteq> 0 \<longrightarrow>
      (\<exists>self'. update_adaptive_embedding self name e now = Some self' \<and>
         authorized_cache self' = authorized_cache self \<and> db self' = db self \<and>
         search_index self' = search_index self \<and>
         recognition_count self' name = recognition_count self name + 1)) \<and>
   ((recognition_count self name + 1) mod ADAPTIVE_UPDATE_FREQUENCY = 0 \<and>
    map_of (authorized_cache self) name = Some old \<and>
    linalg_norm old = 1 \<and> linalg_norm e = 1 \<and> length old = length e \<and>
    connected (db self) \<and> auth_coll (db self) name = Some doc \<longrightarrow>
      (\<exists>self' u. update_adaptive_embedding self name e now = Some self' \<and>
         linalg_norm (adaptive_blend old e) \<noteq> 0 \<and>
         u = map (\<lambda>x. x / linalg_norm (adaptive_blend old e)) (adaptive_blend old e) \<and>
         linalg_norm u = 1 \<and>
         map_of (authorized_cache self') name = Some u \<and>
         map_option doc_embedding (auth_coll (db self') name) = Some u \<and>
         (\<forall>ix. use_faiss self \<and> search_index self = Some ix \<and> name \<in> set (names ix) \<and>
               length (embeddings ix) = length (names ix) \<and>
               list_all (\<lambda>r. length r = length e) (embeddings ix) \<longrightarrow>
            (\<exists>ix'. search_index self' = Some ix' \<and> is_trained ix' \<and> names ix' = names ix \<and>
               embeddings ix' ! list_index name (names ix) = u \<and>
               map_option (\<lambda>fx. idx_xb fx ! list_index name (names ix)) (index ix') = Some u))))"
proof (intro conjI allI impI)
  fix n
  assume a: "recognition_count self name mod ADAPTIVE_UPDATE_FREQUENCY = 0 \<and>
        n < ADAPTIVE_UPDATE_FREQUENCY"
  have "\<forall>i < n. (recognition_count self name + i + 1) mod ADAPTIVE_UPDATE_FREQUENCY \<noteq> 0"
  proof (intro allI impI)
    fix i assume "i < n"
    with a have "i + 1 < 10" by (simp add: ADAPTIVE_UPDATE_FREQUENCY_def)
    moreover from a have "recognition_count self name mod 10 = 0"
      by (simp add: ADAPTIVE_UPDATE_FREQUENCY_def)
    ultimately show "(recognition_count self name + i + 1) mod ADAPTIVE_UPDATE_FREQUENCY \<noteq> 0"
      unfolding ADAPTIVE_UPDATE_FREQUENCY_def by presburger
  qed
  then show "\<exists>self'. adaptive_run n self name e now = Some self' \<and>
         authorized_cache self' = authorized_cache self \<and> db self' = db self \<and>
         search_index self' = search_index self \<and>
         recognition_count self' name = recognition_count self name + n"
    by (rule adaptive_run_unchanged)
next
  assume "(recognition_count self name + 1) mod ADAPTIVE_UPDATE_FREQUENCY \<noteq> 0"
  from update_adaptive_skips [OF this, of e now]
  show "\<exists>self'. update_adaptive_embedding self name e now = Some self' \<and>
         authorized_cache self' = authorized_cache self \<and> db self' = db self \<and>
         search_index self' = search_index self \<and>
         recognition_count self' name = recognition_count self name + 1"
    by (simp add: recognition_count_def)
next
  assume a: "(recognition_count self name + 1) mod ADAPTIVE_UPDATE_FREQUENCY = 0 \<and>
    map_of (authorized_cache self) name = Some old \<and>
    linalg_norm old = 1 \<and> linalg_norm e = 1 \<and> length old = length e \<and>
    connected (db self) \<and> auth_coll (db self) name = Some doc"
  define u where "u = map (\<lambda>x. x / linalg_norm (adaptive_blend old e)) (adaptive_blend old e)"
  from a have nz: "linalg_norm (adaptive_blend old e) \<noteq> 0"
    by (intro adaptive_blend_nonzero) simp_all
  then have unit: "linalg_norm u = 1"
    unfolding u_def by (rule linalg_norm_divided)
  have lu: "length u = length e"
    using a by (simp add: u_def adaptive_blend_def)
  have "\<exists>self'. update_adaptive_embedding self name e now = Some self' \<and>
           recognition_counts self' name = Some (recognition_count self name + 1) \<and>
           authorized_cache self' = dict_set (authorized_cache self) name
             (map (\<lambda>x. x / linalg_norm (adaptive_blend old e)) (adaptive_blend old e)) \<and>
           db self' = (db self)\<lparr>auth_coll := (auth_coll (db self))(name \<mapsto>
                         doc\<lparr>doc_embedding :=
                               map (\<lambda>x. x / linalg_norm (adaptive_blend old e)) (adaptive_blend old e),
                             doc_updated_at := now\<rparr>)\<rparr> \<and>
           search_index self' =
             (case search_index self of
                None \<Rightarrow> None
              | Some ix \<Rightarrow> if use_faiss self then Some (snd (update_embedding ix name
                   (map (\<lambda>x. x / linalg_norm (adaptive_blend old e)) (adaptive_blend old e))))
                           else Some ix)"
    using a nz by (intro update_adaptive_fires) simp_all
  then obtain self' where s:
    "update_adaptive_embedding self name e now = Some self'"
    "authorized_cache self' = dict_set (authorized_cache self) name u"
    "db self' = (db self)\<lparr>auth_coll := (auth_coll (db self))(name \<mapsto>
                         doc\<lparr>doc_embedding := u, doc_updated_at := now\<rparr>)\<rparr>"
    "search_index self' =
             (case search_index self of
                None \<Rightarrow> None
              | Some ix \<Rightarrow> if use_faiss self then Some (snd (update_embedding ix name u))
                           else Some ix)"
    unfolding u_def by blast
  have idx: "\<exists>ix'. search_index self' = Some ix' \<and> is_trained ix' \<and> names ix' = names ix \<and>
               embeddings ix' ! list_index name (names ix) = u \<and>
               map_option (\<lambda>fx. idx_xb fx ! list_index name (names ix)) (index ix') = Some u"
    if h: "use_faiss self \<and> search_index self = Some ix \<and> name \<in> set (names ix) \<and>
               length (embeddings ix) = length (names ix) \<and>
               list_all (\<lambda>r. length r = length e) (embeddings ix)" for ix
  proof -
    from h have i: "list_index name (names ix) < length (embeddings ix)"
      by (simp add: list_index_less)
    from h have "update_embedding ix name u =
     (True,
      \<lparr>dimension = length u,
       index = Some \<lparr>idx_kind = IndexFlatL2, idx_d = length u,
                     idx_xb = (embeddings ix)[list_index name (names ix) := u]\<rparr>,
       names = names ix,
       embeddings = (embeddings ix)[list_index name (names ix) := u],
       is_trained = True\<rparr>)"
      by (intro update_embedding_ok) (simp_all add: lu)
    with h i show ?thesis
      by (simp add: s(4))
  qed
  show "\<exists>self' u. update_adaptive_embedding self name e now = Some self' \<and>
         linalg_norm (adaptive_blend old e) \<noteq> 0 \<and>
         u = map (\<lambda>x. x / linalg_norm (adaptive_blend old e)) (adaptive_blend old e) \<and>
         linalg_norm u = 1 \<and>
         map_of (authorized_cache self') name = Some u \<and>
         map_option doc_embedding (auth_coll (db self') name) = Some u \<and>
         (\<forall>ix. use_faiss self \<and> search_index self = Some ix \<and> name \<in> set (names ix) \<and>
               length (embeddings ix) = length (names ix) \<and>
               list_all (\<lambda>r. length r = length e) (embeddings ix) \<longrightarrow>
            (\<exists>ix'. search_index self' = Some ix' \<and> is_trained ix' \<and> names ix' = names ix \<and>
               embeddings ix' ! list_index name (names ix) = u \<and>
               map_option (\<lambda>fx. idx_xb fx ! list_index name (names ix)) (index ix') = Some u))"
    using s(1) nz unit idx
    by (intro exI [of _ self'] exI [of _ u]) (simp add: s(2,3) map_of_dict_set u_def)
qed

theorem adaptive_update_every_Fth_witness:
  "(\<exists>self'. adaptive_run 9 example_system ''Alice'' [0, 1] 5 = Some self' \<and>
      authorized_cache self' = [(''Alice'', [1, 0])]) \<and>
   (\<exists>self'. update_adaptive_embedding
               (example_system\<lparr>recognition_counts := [''Alice'' \<mapsto> 9]\<rparr>) ''Alice'' [0, 1] 5
             = Some self' \<and>
      map_option linalg_norm (map_of (authorized_cache self') ''Alice'') = Some 1 \<and>
      map_option (\<lambda>d. linalg_norm (doc_embedding d)) (auth_coll (db self') ''Alice'') = Some 1)"
proof
  from adaptive_update_every_Fth [where self = example_system and name = "''Alice''"
      and e = "[0, 1]" and now = 5]
  have "\<forall>n. n < 10 \<longrightarrow> (\<exists>self'. adaptive_run n example_system ''Alice'' [0, 1] 5 = Some self' \<and>
         authorized_cache self' = authorized_cache example_system)"
    by (auto simp: recognition_count_def example_system_def ADAPTIVE_UPDATE_FREQUENCY_def)
  then have "\<exists>self'. adaptive_run 9 example_system ''Alice'' [0, 1] 5 = Some self' \<and>
         authorized_cache self' = authorized_cache example_system"
    by simp
  then show "\<exists>self'. adaptive_run 9 example_system ''Alice'' [0, 1] 5 = Some self' \<and>
      authorized_cache self' = [(''Alice'', [1, 0])]"
    by (simp add: example_system_def)
next
  have n: "linalg_norm [1, 0] = 1" "linalg_norm [0, 1] = 1"
    by (simp_all add: linalg_norm_def)
  from adaptive_update_every_Fth [where self = "example_system\<lparr>recognition_counts := [''Alice'' \<mapsto> 9]\<rparr>"
      and name = "''Alice''" and e = "[0, 1]" and now = 5 and old = "[1, 0]"
      and doc = "\<lparr>doc_embedding = [1, 0], doc_image_id = 0, doc_created_at = 1,
                  doc_updated_at = 1\<rparr>"]
  have "\<exists>self' u. update_adaptive_embedding
               (example_system\<lparr>recognition_counts := [''Alice'' \<mapsto> 9]\<rparr>) ''Alice'' [0, 1] 5
             = Some self' \<and> linalg_norm u = 1 \<and>
           map_of (authorized_cache self') ''Alice'' = Some u \<and>
           map_option doc_embedding (auth_coll (db self') ''Alice'') = Some u"
    by (simp add: recognition_count_def example_system_def example_db_def
        ADAPTIVE_UPDATE_FREQUENCY_def n) blast
  then show "\<exists>self'. update_adaptive_embedding
               (example_system\<lparr>recognition_counts := [''Alice'' \<mapsto> 9]\<rparr>) ''Alice'' [0, 1] 5
             = Some self' \<and>
      map_option linalg_norm (map_of (authorized_cache self') ''Alice'') = Some 1 \<and>
      map_option (\<lambda>d. linalg_norm (doc_embedding d)) (auth_coll (db self') ''Alice'') = Some 1"
    by (auto simp: map_option_case split: option.splits)
qed

end
